theory Spec2Isabelle
  imports Main "HOL-Library.Word"
begin

unbundle bit_operations_syntax

section \<open>Typefind functions of gst-plugins-base: a shallow embedding\<close>

text \<open>
  The theory follows \<^verbatim>\<open>gst/typefind/gsttypefindfunctions.c\<close>. C integers are
  modelled as \<^typ>\<open>int\<close> with the conversions of the C code written out
  (\<open>u32\<close>, \<open>u64\<close>, \<open>s32\<close>, \<open>s64\<close>); header words are \<^typ>\<open>32 word\<close>; bytes are
  \<^typ>\<open>8 word\<close>. A pointer into peeked data is a pair of the peeked buffer and
  an index into it; a read outside the buffer is the error \<open>OutOfWindow\<close>.
\<close>

subsection \<open>Machine integers\<close>

type_synonym guint8 = "8 word"
type_synonym guint32 = "32 word"

definition u32 :: "int \<Rightarrow> int" where
  "u32 x = x mod 2 ^ 32"

definition u64 :: "int \<Rightarrow> int" where
  "u64 x = x mod 2 ^ 64"

definition s32 :: "int \<Rightarrow> int" where
  "s32 x = (x + 2 ^ 31) mod 2 ^ 32 - 2 ^ 31"

definition s64 :: "int \<Rightarrow> int" where
  "s64 x = (x + 2 ^ 63) mod 2 ^ 64 - 2 ^ 63"

lemma s32_range: "- (2 ^ 31) \<le> s32 x \<and> s32 x < 2 ^ 31"
  by (simp add: s32_def)

lemma s32_id: "- (2 ^ 31) \<le> x \<Longrightarrow> x < 2 ^ 31 \<Longrightarrow> s32 x = x"
  by (simp add: s32_def)

lemma s32_idem: "s32 (s32 x) = s32 x"
  using s32_range [of x] by (simp add: s32_id)

lemma s32_wrap_max: "s32 (2 ^ 31) < 0"
  by (simp add: s32_def)

lemma s32_u64_diff: "s32 (u64 x - x) = 0"
proof -
  have e: "(2::int) ^ 64 * (x div 2 ^ 64) + x mod 2 ^ 64 = x"
    by (rule mult_div_mod_eq)
  have "x mod 2 ^ 64 - x = - ((2::int) ^ 64 * (x div 2 ^ 64))"
    using e by linarith
  then have "u64 x - x = 2 ^ 32 * (- (2 ^ 32 * (x div 2 ^ 64)))"
    unfolding u64_def by simp
  then have "s32 (u64 x - x) = (2 ^ 31 + 2 ^ 32 * (- (2 ^ 32 * (x div 2 ^ 64)))) mod 2 ^ 32 - 2 ^ 31"
    unfolding s32_def by (simp only: add.commute)
  also have "\<dots> = 0"
    by (simp only: mod_mult_self2) simp
  finally show ?thesis .
qed

lemma u64_step: "s < 10000 \<Longrightarrow> s < u64 (s + 1)"
proof (cases "0 \<le> s")
  case True
  assume "s < 10000"
  with True have "u64 (s + 1) = s + 1" by (simp add: u64_def)
  then show ?thesis by simp
next
  case False
  have "0 \<le> u64 (s + 1)" by (simp add: u64_def)
  with False show ?thesis by simp
qed

subsection \<open>The typefind context and its data window\<close>

text \<open>
  \<open>GstTypeFind\<close> is the struct of callbacks that every typefind function
  receives: \<open>peek\<close> and \<open>get_length\<close>. The \<open>suggest\<close> callback is modelled by
  the value a typefind function returns: the suggestions it made, if any.
\<close>

record GstTypeFind =
  peek :: "int \<Rightarrow> int \<Rightarrow> guint8 list option"
  get_length :: int

text \<open>
  \<open>gst_type_find_peek (tf, offset, size)\<close>: the offset is converted to
  \<open>gint64\<close> and the size to \<open>guint\<close>; the result is \<open>NULL\<close> or a pointer to
  \<open>size\<close> bytes. The window a typefind function may read is exactly those
  \<open>size\<close> bytes.
\<close>

definition gst_type_find_peek :: "GstTypeFind \<Rightarrow> int \<Rightarrow> int \<Rightarrow> guint8 list option" where
  "gst_type_find_peek tf off sz =
     (case peek tf (s64 off) (u32 sz) of
        None \<Rightarrow> None
      | Some bs \<Rightarrow> if nat (u32 sz) \<le> length bs then Some (take (nat (u32 sz)) bs) else None)"

definition gst_type_find_get_length :: "GstTypeFind \<Rightarrow> int" where
  "gst_type_find_get_length tf = u64 (get_length tf)"

text \<open>
  A host over a byte sequence whose total length is known or not: a
  non-negative offset is absolute, a negative one is relative to the end and
  can only be served when the length is known; a span that does not lie
  inside the stream is absent. An unknown length is reported as 0.
\<close>

definition stream_peek :: "guint8 list \<Rightarrow> bool \<Rightarrow> int \<Rightarrow> int \<Rightarrow> guint8 list option" where
  "stream_peek bs known off sz =
     (let n = int (length bs);
          start = (if off < 0 then (if known then n + off else - 1) else off)
      in if 0 \<le> start \<and> 0 \<le> sz \<and> start + sz \<le> n
         then Some (take (nat sz) (drop (nat start) bs)) else None)"

definition stream_tf :: "guint8 list \<Rightarrow> bool \<Rightarrow> GstTypeFind" where
  "stream_tf bs known =
     \<lparr> peek = stream_peek bs known,
       get_length = (if known then int (length bs) else 0) \<rparr>"

subsection \<open>Probabilities, caps, suggestions\<close>

definition GST_TYPE_FIND_MINIMUM :: int where "GST_TYPE_FIND_MINIMUM = 1"
definition GST_TYPE_FIND_POSSIBLE :: int where "GST_TYPE_FIND_POSSIBLE = 50"
definition GST_TYPE_FIND_LIKELY :: int where "GST_TYPE_FIND_LIKELY = 80"
definition GST_TYPE_FIND_NEARLY_CERTAIN :: int where "GST_TYPE_FIND_NEARLY_CERTAIN = 99"
definition GST_TYPE_FIND_MAXIMUM :: int where "GST_TYPE_FIND_MAXIMUM = 100"

text \<open>Caps: a media type name and its integer fields. A suggestion: probability and caps.\<close>

type_synonym GstCaps = "string \<times> (string \<times> int) list"
type_synonym suggestion = "int \<times> GstCaps"

subsection \<open>Reading peeked memory\<close>

datatype error = OutOfWindow int nat

definition rd :: "guint8 list \<Rightarrow> int \<Rightarrow> error + guint8" where
  "rd w i = (if 0 \<le> i \<and> i < int (length w) then Inr (w ! nat i)
             else Inl (OutOfWindow i (length w)))"

text \<open>The bytes of a C string literal.\<close>

definition bytes_of :: "string \<Rightarrow> guint8 list" where
  "bytes_of s = map (\<lambda>c. of_nat (of_char c)) s"

text \<open>
  \<open>memcmp (p, lit, n)\<close> with \<open>p\<close> at index \<open>i\<close> of the window \<open>w\<close>: bytes are
  compared in order; the result is the difference at the first byte that
  differs, 0 if none does. Each byte read must lie in the window.
\<close>

fun memcmp :: "guint8 list \<Rightarrow> int \<Rightarrow> guint8 list \<Rightarrow> nat \<Rightarrow> error + int" where
  "memcmp w i lit 0 = Inr 0"
| "memcmp w i [] (Suc n) = Inr 0"
| "memcmp w i (c # lit) (Suc n) =
     (case rd w i of
        Inl e \<Rightarrow> Inl e
      | Inr b \<Rightarrow> if b \<noteq> c then Inr (uint b - uint c) else memcmp w (i + 1) lit n)"

text \<open>\<open>GST_READ_UINT32_BE\<close> and \<open>GST_READ_UINT64_BE\<close> at index \<open>i\<close> of a window.\<close>

definition be32 :: "guint8 \<Rightarrow> guint8 \<Rightarrow> guint8 \<Rightarrow> guint8 \<Rightarrow> guint32" where
  "be32 b0 b1 b2 b3 =
     push_bit 24 (ucast b0) OR push_bit 16 (ucast b1) OR push_bit 8 (ucast b2) OR ucast b3"

definition GST_READ_UINT32_BE :: "guint8 list \<Rightarrow> int \<Rightarrow> error + guint32" where
  "GST_READ_UINT32_BE w i =
     (case rd w i of Inl e \<Rightarrow> Inl e | Inr b0 \<Rightarrow>
     (case rd w (i + 1) of Inl e \<Rightarrow> Inl e | Inr b1 \<Rightarrow>
     (case rd w (i + 2) of Inl e \<Rightarrow> Inl e | Inr b2 \<Rightarrow>
     (case rd w (i + 3) of Inl e \<Rightarrow> Inl e | Inr b3 \<Rightarrow> Inr (be32 b0 b1 b2 b3)))))"

fun be_value :: "guint8 list \<Rightarrow> int \<Rightarrow> int" where
  "be_value [] acc = acc"
| "be_value (b # bs) acc = be_value bs (acc * 256 + uint b)"

definition GST_READ_UINT64_BE :: "guint8 list \<Rightarrow> error + int" where
  "GST_READ_UINT64_BE w =
     (if 8 \<le> length w then Inr (be_value (take 8 w) 0)
      else Inl (OutOfWindow (int (length w)) (length w)))"

subsection \<open>audio/x-aiff and audio/x-svx\<close>

text \<open>
  \<open>aiff_type_find\<close>: peek 4 bytes at offset 0; if they are \<open>FORM\<close>, advance the
  pointer by 8 and compare 4 bytes there with \<open>AIFF\<close> or \<open>AIFC\<close>.
\<close>

definition aiff_type_find :: "GstTypeFind \<Rightarrow> error + suggestion option" where
  "aiff_type_find tf =
     (case gst_type_find_peek tf 0 4 of
        None \<Rightarrow> Inr None
      | Some data \<Rightarrow>
          (case memcmp data 0 (bytes_of ''FORM'') 4 of
             Inl e \<Rightarrow> Inl e
           | Inr c \<Rightarrow>
               if c = 0 then
                 (case memcmp data (0 + 8) (bytes_of ''AIFF'') 4 of
                    Inl e \<Rightarrow> Inl e
                  | Inr c1 \<Rightarrow>
                      if c1 = 0 then Inr (Some (GST_TYPE_FIND_MAXIMUM, (''audio/x-aiff'', [])))
                      else
                        (case memcmp data (0 + 8) (bytes_of ''AIFC'') 4 of
                           Inl e \<Rightarrow> Inl e
                         | Inr c2 \<Rightarrow>
                             if c2 = 0
                             then Inr (Some (GST_TYPE_FIND_MAXIMUM, (''audio/x-aiff'', [])))
                             else Inr None))
               else Inr None))"

definition svx_type_find :: "GstTypeFind \<Rightarrow> error + suggestion option" where
  "svx_type_find tf =
     (case gst_type_find_peek tf 0 4 of
        None \<Rightarrow> Inr None
      | Some data \<Rightarrow>
          (case memcmp data 0 (bytes_of ''FORM'') 4 of
             Inl e \<Rightarrow> Inl e
           | Inr c \<Rightarrow>
               if c = 0 then
                 (case memcmp data (0 + 8) (bytes_of ''8SVX'') 4 of
                    Inl e \<Rightarrow> Inl e
                  | Inr c1 \<Rightarrow>
                      if c1 = 0 then Inr (Some (GST_TYPE_FIND_MAXIMUM, (''audio/x-svx'', [])))
                      else
                        (case memcmp data (0 + 8) (bytes_of ''16SV'') 4 of
                           Inl e \<Rightarrow> Inl e
                         | Inr c2 \<Rightarrow>
                             if c2 = 0
                             then Inr (Some (GST_TYPE_FIND_MAXIMUM, (''audio/x-svx'', [])))
                             else Inr None))
               else Inr None))"

subsection \<open>video/x-matroska\<close>

text \<open>The EBML ID test: true when the first four bytes are not \<open>1A 45 DF A3\<close>.\<close>

definition matroska_not_ebml :: "guint8 list \<Rightarrow> error + bool" where
  "matroska_not_ebml data =
     (case rd data 0 of Inl e \<Rightarrow> Inl e | Inr b0 \<Rightarrow>
        if b0 \<noteq> 0x1A then Inr True else
     (case rd data 1 of Inl e \<Rightarrow> Inl e | Inr b1 \<Rightarrow>
        if b1 \<noteq> 0x45 then Inr True else
     (case rd data 2 of Inl e \<Rightarrow> Inl e | Inr b2 \<Rightarrow>
        if b2 \<noteq> 0xDF then Inr True else
     (case rd data 3 of Inl e \<Rightarrow> Inl e | Inr b3 \<Rightarrow> Inr (b3 \<noteq> 0xA3)))))"

text \<open>\<open>while (size <= 8 && !(total & len_mask)) { size++; len_mask >>= 1; }\<close>\<close>

function matroska_size_loop :: "int \<Rightarrow> int \<Rightarrow> int \<Rightarrow> int \<times> int" where
  "matroska_size_loop tot sz len_mask =
     (if sz \<le> 8 \<and> tot AND len_mask = 0
      then matroska_size_loop tot (sz + 1) (drop_bit 1 len_mask)
      else (sz, len_mask))"
  by pat_completeness auto
termination
  by (relation "measure (\<lambda>(tot, sz, len_mask). nat (9 - sz))") auto

declare matroska_size_loop.simps [simp del]

text \<open>
  \<open>while (n < size) total = (total << 8) | data[4 + n++];\<close> where \<open>total\<close> is
  a \<open>gint\<close>: the shifted value is kept to 32 bits.
\<close>

function matroska_total_loop :: "guint8 list \<Rightarrow> int \<Rightarrow> int \<Rightarrow> int \<Rightarrow> error + int" where
  "matroska_total_loop data sz n tot =
     (if n < sz then
        (case rd data (4 + n) of
           Inl e \<Rightarrow> Inl e
         | Inr b \<Rightarrow> matroska_total_loop data sz (n + 1) (s32 (push_bit 8 tot) OR uint b))
      else Inr tot)"
  by pat_completeness auto
termination
  by (relation "measure (\<lambda>(data, sz, n, tot). nat (sz - n))") auto

declare matroska_total_loop.simps [simp del]

definition probe_data :: "guint8 list" where
  "probe_data = bytes_of ''matroska''"

text \<open>
  \<open>for (n = 4 + size; n <= 4 + size + total - sizeof (probe_data); n++)\<close>: the
  bound \<open>bnd\<close> is a \<open>size_t\<close>, so \<open>n\<close> is compared as a 64-bit unsigned value.
  The result says whether \<open>probe_data\<close> was found.
\<close>

lemma memcmp_Inr_window:
  "memcmp w i (c # lit) (Suc n) = Inr r \<Longrightarrow> 0 \<le> i \<and> i < int (length w)"
  by (auto simp: rd_def split: if_splits)

function matroska_probe_loop :: "guint8 list \<Rightarrow> int \<Rightarrow> int \<Rightarrow> error + bool" where
  "matroska_probe_loop data bnd n =
     (if u64 n \<le> bnd then
        (case memcmp data n probe_data 8 of
           Inl e \<Rightarrow> Inl e
         | Inr c \<Rightarrow> if c = 0 then Inr True else matroska_probe_loop data bnd (s32 (n + 1)))
      else Inr False)"
  by pat_completeness auto
termination
proof (relation "measure (\<lambda>(data, bnd, n).
    (if s32 n = n then 0 else length data + 2) +
    (if n < 0 then 0 else nat (int (length data) - n) + 1))", goal_cases)
  case 1
  show ?case by simp
next
  case (2 data bnd n c)
  have "memcmp data n (of_nat (of_char CHR ''m'') # bytes_of ''atroska'') (Suc 7) = Inr c"
    using 2(2) by (simp add: probe_data_def bytes_of_def)
  then have w: "0 \<le> n" "n < int (length data)"
    using memcmp_Inr_window by blast+
  have idem: "s32 (s32 (n + 1)) = s32 (n + 1)"
    by (rule s32_idem)
  show ?case
  proof (cases "s32 n = n")
    case True
    then have "n < 2 ^ 31"
      using s32_range [of n] by simp
    then have "s32 (n + 1) = n + 1 \<or> s32 (n + 1) < 0"
    proof (cases "n + 1 < 2 ^ 31")
      case True
      with w(1) show ?thesis by (simp add: s32_id)
    next
      case False
      with \<open>n < 2 ^ 31\<close> have "n + 1 = 2 ^ 31" by simp
      then show ?thesis using s32_wrap_max by simp
    qed
    with w idem True show ?thesis by auto
  next
    case False
    with w idem show ?thesis by auto
  qed
qed

declare matroska_probe_loop.simps [simp del]

definition matroska_type_find :: "GstTypeFind \<Rightarrow> error + suggestion option" where
  "matroska_type_find tf =
     (case gst_type_find_peek tf 0 (4 + 1) of
        None \<Rightarrow> Inr None
      | Some data \<Rightarrow>
     (case matroska_not_ebml data of Inl e \<Rightarrow> Inl e | Inr differs \<Rightarrow>
        if differs then Inr None else
     (case rd data 4 of Inl e \<Rightarrow> Inl e | Inr b4 \<Rightarrow>
        (let tot = uint b4;
             (sz, len_mask) = matroska_size_loop tot 1 0x80
         in if sz > 8 then Inr None else
     (case matroska_total_loop data sz 1 (tot AND (len_mask - 1)) of
        Inl e \<Rightarrow> Inl e
      | Inr tot \<Rightarrow>
     (case gst_type_find_peek tf 0 (s32 (4 + sz + tot)) of
        None \<Rightarrow> Inr None
      | Some data \<Rightarrow>
     (case matroska_probe_loop data (u64 (s32 (4 + sz + tot) - 8)) (4 + sz) of
        Inl e \<Rightarrow> Inl e
      | Inr hit \<Rightarrow>
          if hit then Inr (Some (GST_TYPE_FIND_MAXIMUM, (''video/x-matroska'', [])))
          else Inr None)))))))"

subsection \<open>video/quicktime\<close>

text \<open>
  \<open>strncmp (p, lit, n)\<close> with \<open>p\<close> at index \<open>i\<close> of the window: at most \<open>n\<close>
  characters are compared, and the comparison stops after a NUL. The literal
  is given without its terminating NUL, which is what is read once the list
  is used up.
\<close>

fun strncmp :: "guint8 list \<Rightarrow> int \<Rightarrow> guint8 list \<Rightarrow> nat \<Rightarrow> error + int" where
  "strncmp w i lit 0 = Inr 0"
| "strncmp w i lit (Suc n) =
     (case rd w i of
        Inl e \<Rightarrow> Inl e
      | Inr b \<Rightarrow>
          (let c = (case lit of [] \<Rightarrow> 0 | c # _ \<Rightarrow> c)
           in if b \<noteq> c then Inr (uint b - uint c)
              else if b = 0 then Inr 0
              else strncmp w (i + 1) (tl lit) n))"

text \<open>
  \<open>STRNCMP (&data[4], t1, 4) == 0 || STRNCMP (&data[4], t2, 4) == 0 || ...\<close>:
  the box types are tried in order until one matches.
\<close>

fun qt_type_in :: "guint8 list \<Rightarrow> string list \<Rightarrow> error + bool" where
  "qt_type_in data [] = Inr False"
| "qt_type_in data (t # ts) =
     (case strncmp data 4 (bytes_of t) 4 of
        Inl e \<Rightarrow> Inl e
      | Inr c \<Rightarrow> if c = 0 then Inr True else qt_type_in data ts)"

text \<open>
  One round of the \<open>while\<close> loop of \<open>qt_type_find\<close>, after the peek of 8 bytes
  at \<open>offset\<close> gave \<open>data\<close>: either the loop is left with a final \<open>tip\<close>, or
  it goes on with a new \<open>tip\<close> and a new \<open>offset\<close> (a \<open>guint64\<close>).
\<close>

datatype qt_round = Stop int | Advance int int

definition qt_box :: "GstTypeFind \<Rightarrow> int \<Rightarrow> int \<Rightarrow> guint8 list \<Rightarrow> error + qt_round" where
  "qt_box tf tip offset data =
     (case qt_type_in data [''moov'', ''mdat'', ''ftyp'', ''free'', ''skip''] of
        Inl e \<Rightarrow> Inl e
      | Inr common \<Rightarrow>
          if common then
            (let tip = (if tip = 0 then GST_TYPE_FIND_LIKELY else GST_TYPE_FIND_NEARLY_CERTAIN)
             in (case GST_READ_UINT32_BE data 0 of
                   Inl e \<Rightarrow> Inl e
                 | Inr sz32 \<Rightarrow>
                     if uint sz32 = 1 then
                       (case gst_type_find_peek tf (u64 (offset + 8)) 8 of
                          None \<Rightarrow> Inr (Stop tip)
                        | Some sizedata \<Rightarrow>
                            (case GST_READ_UINT64_BE sizedata of
                               Inl e \<Rightarrow> Inl e
                             | Inr sz \<Rightarrow> Inr (Advance tip (u64 (offset + sz)))))
                     else if uint sz32 < 8 then Inr (Stop tip)
                     else Inr (Advance tip (u64 (offset + uint sz32)))))
          else
            (case qt_type_in data [''pnot'', ''PICT'', ''wide''] of
               Inl e \<Rightarrow> Inl e
             | Inr qt \<Rightarrow> if qt then Inr (Stop GST_TYPE_FIND_MAXIMUM) else Inr (Stop 0)))"

text \<open>
  The loop itself. Nothing bounds the number of rounds (an extended size of
  0 leaves the offset where it is), so the walk is a partial function: \<open>None\<close>
  stands for a loop that does not end.
\<close>

partial_function (option) qt_walk :: "GstTypeFind \<Rightarrow> int \<Rightarrow> int \<Rightarrow> (error + int) option" where
  "qt_walk tf tip offset =
     (case gst_type_find_peek tf offset 8 of
        None \<Rightarrow> Some (Inr tip)
      | Some data \<Rightarrow>
          (case qt_box tf tip offset data of
             Inl e \<Rightarrow> Some (Inl e)
           | Inr (Stop t) \<Rightarrow> Some (Inr t)
           | Inr (Advance t off) \<Rightarrow> qt_walk tf t off))"

definition qt_type_find :: "GstTypeFind \<Rightarrow> (error + suggestion option) option" where
  "qt_type_find tf =
     (case qt_walk tf 0 0 of
        None \<Rightarrow> None
      | Some (Inl e) \<Rightarrow> Some (Inl e)
      | Some (Inr tip) \<Rightarrow>
          Some (Inr (if tip > 0 then Some (tip, (''video/quicktime'', [])) else None)))"

subsection \<open>audio/mpeg: the frame header\<close>

definition mp3types_bitrates :: "int list list list" where
  "mp3types_bitrates =
     [[[0, 32, 64, 96, 128, 160, 192, 224, 256, 288, 320, 352, 384, 416, 448, 0],
       [0, 32, 48, 56, 64, 80, 96, 112, 128, 160, 192, 224, 256, 320, 384, 0],
       [0, 32, 40, 48, 56, 64, 80, 96, 112, 128, 160, 192, 224, 256, 320, 0]],
      [[0, 32, 48, 56, 64, 80, 96, 112, 128, 144, 160, 176, 192, 224, 256, 0],
       [0, 8, 16, 24, 32, 40, 48, 56, 64, 80, 96, 112, 128, 144, 160, 0],
       [0, 8, 16, 24, 32, 40, 48, 56, 64, 80, 96, 112, 128, 144, 160, 0]]]"

definition mp3types_freqs :: "int list list" where
  "mp3types_freqs = [[11025, 12000, 8000], [22050, 24000, 16000], [44100, 48000, 32000]]"

text \<open>The values stored through \<open>put_layer\<close>, \<open>put_channels\<close>, \<open>put_bitrate\<close>, \<open>put_samplerate\<close>.\<close>

record mp3_header =
  put_layer :: int
  put_channels :: int
  put_bitrate :: int
  put_samplerate :: int

text \<open>
  \<open>mp3_type_frame_length_from_header\<close>. The result is the returned length,
  the values stored through the \<open>put_\<close> pointers (\<open>None\<close> when the function
  returns before storing them) and whether \<open>*may_be_free_format\<close> was set.
  All locals are \<open>guint\<close>; the arithmetic that takes the signed
  \<open>possible_free_framelen\<close> in is reduced to 32 bits, the table arithmetic
  stays below \<open>2^32\<close> as it is.
\<close>

definition mp3_type_frame_length_from_header ::
    "guint32 \<Rightarrow> int \<Rightarrow> int \<times> mp3_header option \<times> bool" where
  "mp3_type_frame_length_from_header header possible_free_framelen =
     (if header AND 0xffe00000 \<noteq> 0xffe00000 then (0, None, False) else
      let header = drop_bit 6 header;
          mode = uint (header AND 0x3);
          header = drop_bit 3 header;
          len = uint (header AND 0x1);
          header = drop_bit 1 header;
          samplerate = uint (header AND 0x3)
      in if samplerate = 3 then (0, None, False) else
      let header = drop_bit 2 header;
          bitrate = uint (header AND 0xF);
          free = (bitrate = 0 \<and> possible_free_framelen = - 1)
      in if bitrate = 15 \<or> (bitrate = 0 \<and> possible_free_framelen = - 1)
         then (0, None, free) else
      let header = drop_bit 5 header;
          layer = 4 - uint (header AND 0x3)
      in if layer = 4 then (0, None, free) else
      let header = drop_bit 2 header;
          version = uint (header AND 0x3)
      in if version = 1 then (0, None, free) else
      let channels = (if mode = 3 then 1 else 2);
          samplerate = mp3types_freqs ! nat (if version > 0 then version - 1 else 0) ! nat samplerate;
          (len, bitrate) =
            (if bitrate = 0 then
               (if layer = 1 then
                  (let len = u32 (len * 4);
                       len = u32 (len + possible_free_framelen)
                   in (len, u32 (len * samplerate) div 48000))
                else
                  (let len = u32 (len + possible_free_framelen)
                   in (len, u32 (len * samplerate) div
                              (if layer = 3 \<and> version \<noteq> 3 then 72000 else 144000))))
             else
               (let bitrate = mp3types_bitrates ! (if version = 3 then 0 else 1) ! nat (layer - 1)
                                ! nat bitrate
                in if layer = 1 then ((12000 * bitrate div samplerate + len) * 4, bitrate)
                   else (len + (if layer = 3 \<and> version \<noteq> 3 then 72000 else 144000)
                                 * bitrate div samplerate, bitrate)))
      in (len, Some \<lparr> put_layer = layer, put_channels = channels,
                         put_bitrate = bitrate, put_samplerate = samplerate \<rparr>, free))"

subsection \<open>audio/mpeg: scanning for a chain of frame headers\<close>

definition GST_MP3_TYPEFIND_MIN_HEADERS :: int where "GST_MP3_TYPEFIND_MIN_HEADERS = 2"
definition GST_MP3_TYPEFIND_TRY_HEADERS :: int where "GST_MP3_TYPEFIND_TRY_HEADERS = 5"
definition GST_MP3_TYPEFIND_TRY_SYNC :: int where
  "GST_MP3_TYPEFIND_TRY_SYNC = GST_TYPE_FIND_MAXIMUM * 100"
definition GST_MP3_TYPEFIND_SYNC_SIZE :: int where "GST_MP3_TYPEFIND_SYNC_SIZE = 2048"

text \<open>
  The variables of \<open>mp3_type_find_at_offset\<close> that live across rounds of the
  outer loop. The pointer \<open>data\<close> is the buffer of the last successful peek
  (\<open>s_buf\<close>) with an index into it (\<open>s_data\<close>); \<open>data_end\<close> is an index into
  the same buffer.
\<close>

record mp3_sync =
  s_buf :: "guint8 list"
  s_data :: int
  s_data_end :: int
  s_size :: int
  s_skipped :: int
  s_last_free_offset :: int
  s_last_free_framelen :: int

text \<open>
  The variables of the block that follows a sync byte: \<open>head_data\<close> (only
  whether it is non-\<open>NULL\<close> matters), \<open>layer\<close>, \<open>bitrate\<close>, \<open>samplerate\<close>,
  \<open>channels\<close>, \<open>found\<close>, \<open>offset\<close>, and the two free-format variables of the
  enclosing function, which the header loop updates and which are written
  back to \<open>mp3_sync\<close> when the block is left.
\<close>

record mp3_chain =
  head_data :: bool
  layer :: int
  bitrate :: int
  samplerate :: int
  channels :: int
  found :: int
  offset :: int
  last_free_offset :: int
  last_free_framelen :: int

datatype 'a flow = Break 'a | Next 'a

text \<open>
  Where the next header is read: inside the current buffer when
  \<open>(gint64) (offset - skipped + 4) >= 0 && data + offset - skipped + 4 < data_end\<close>,
  from a fresh peek of 4 bytes otherwise.
\<close>

definition mp3_head_data ::
    "GstTypeFind \<Rightarrow> int \<Rightarrow> mp3_sync \<Rightarrow> mp3_chain \<Rightarrow> (guint8 list \<times> int) option" where
  "mp3_head_data tf start_off s c =
     (if s64 (u64 (offset c - s_skipped s + 4)) \<ge> 0 \<and>
         s_data s + s64 (u64 (offset c - s_skipped s + 4)) < s_data_end s
      then Some (s_buf s, s_data s + s64 (u64 (offset c - s_skipped s)))
      else (case gst_type_find_peek tf (u64 (offset c + start_off)) 4 of
              None \<Rightarrow> None
            | Some peeked \<Rightarrow> Some (peeked, 0)))"

text \<open>
  One round of \<open>while (found < GST_MP3_TYPEFIND_TRY_HEADERS)\<close>. \<open>Break\<close> leaves
  the loop; \<open>Next\<close> goes back to the loop test, by \<open>continue\<close> or at the end of
  the body. The four \<open>prev_\<close> variables are declared in the body and start
  at 0 in every round.
\<close>

definition mp3_header_round ::
    "GstTypeFind \<Rightarrow> int \<Rightarrow> mp3_sync \<Rightarrow> mp3_chain \<Rightarrow> error + mp3_chain flow" where
  "mp3_header_round tf start_off s c =
     (let prev_layer = (0::int); prev_bitrate = (0::int);
          prev_channels = (0::int); prev_samplerate = (0::int)
      in case mp3_head_data tf start_off s c of
           None \<Rightarrow> Inr (Break (c\<lparr>head_data := False\<rparr>))
         | Some (hbuf, hix) \<Rightarrow>
        (case GST_READ_UINT32_BE hbuf hix of
           Inl e \<Rightarrow> Inl e
         | Inr head \<Rightarrow>
        (case mp3_type_frame_length_from_header head (last_free_framelen c) of
           (len, put, free) \<Rightarrow>
        (let c = c\<lparr>head_data := True\<rparr>;
             c = (case put of
                    None \<Rightarrow> c
                  | Some h \<Rightarrow> c\<lparr>layer := put_layer h, channels := put_channels h,
                                 bitrate := put_bitrate h, samplerate := put_samplerate h\<rparr>)
         in if len = 0 then
              (if free then
                 (if last_free_offset c = - 1
                  then Inr (Break (c\<lparr>last_free_offset := s32 (offset c)\<rparr>))
                  else Inr (Next (c\<lparr>last_free_framelen := s32 (offset c - last_free_offset c),
                                       offset := u64 (last_free_offset c)\<rparr>)))
               else Inr (Break (c\<lparr>last_free_framelen := - 1\<rparr>)))
            else if (prev_layer \<noteq> 0 \<and> prev_layer \<noteq> layer c) \<or>
                    (prev_samplerate \<noteq> 0 \<and> prev_samplerate \<noteq> samplerate c) \<or>
                    (prev_channels \<noteq> 0 \<and> prev_channels \<noteq> channels c)
            then Inr (Next (c\<lparr>offset := u64 (offset c + len)\<rparr>))
            else Inr (Next (c\<lparr>found := found c + 1, offset := u64 (offset c + len)\<rparr>))))))"

text \<open>
  The loop \<open>while (found < GST_MP3_TYPEFIND_TRY_HEADERS)\<close>. It ends: a round
  that does not leave the loop either counts a header, or is a \<open>continue\<close>,
  which needs \<open>last_free_framelen == -1\<close> before it and can happen at most
  twice in a row.
\<close>

function mp3_header_loop ::
    "GstTypeFind \<Rightarrow> int \<Rightarrow> mp3_sync \<Rightarrow> mp3_chain \<Rightarrow> error + mp3_chain" where
  "mp3_header_loop tf start_off s c =
     (if found c < GST_MP3_TYPEFIND_TRY_HEADERS then
        (case mp3_header_round tf start_off s c of
           Inl e \<Rightarrow> Inl e
         | Inr (Break c') \<Rightarrow> Inr c'
         | Inr (Next c') \<Rightarrow> mp3_header_loop tf start_off s c')
      else Inr c)"
  by pat_completeness auto
termination
proof (relation "measure (\<lambda>(tf, start_off, s, c).
    nat (5 - found c) * 3 +
    (if last_free_framelen c \<noteq> - 1 then 0
     else if s32 (offset c - last_free_offset c) \<noteq> - 1 then 1 else 2))", goal_cases)
  case 1
  show ?case by simp
next
  case (2 tf start_off s c x2 x2a)
  have free_needs: "last_free_framelen c = - 1"
    if "mp3_type_frame_length_from_header h (last_free_framelen c) = (0, hdr, True)" for h hdr
    using that
    by (auto simp: mp3_type_frame_length_from_header_def Let_def split: if_splits prod.splits)
  from 2 show ?case
    by (auto simp: mp3_header_round_def GST_MP3_TYPEFIND_TRY_HEADERS_def Let_def s32_u64_diff
        split: option.splits sum.splits prod.splits if_splits dest: free_needs)
qed

declare mp3_header_loop.simps [simp del]

text \<open>
  \<open>do { size /= 2; data = gst_type_find_peek (tf, skipped + start_off, size); }
  while (size > 10 && !data);\<close>
\<close>

function mp3_peek_loop :: "GstTypeFind \<Rightarrow> int \<Rightarrow> int \<Rightarrow> int \<times> guint8 list option" where
  "mp3_peek_loop tf off sz =
     (let sz = sz div 2;
          peeked = gst_type_find_peek tf off sz
      in if sz > 10 \<and> peeked = None then mp3_peek_loop tf off sz else (sz, peeked))"
  by pat_completeness auto
termination
  by (relation "measure (\<lambda>(tf, off, sz). nat sz)") auto

declare mp3_peek_loop.simps [simp del]

text \<open>
  The head of the outer loop body: when \<open>size\<close> is used up, peek a new
  buffer. \<open>None\<close> is the \<open>break\<close> taken when no size could be peeked.
\<close>

definition mp3_refill :: "GstTypeFind \<Rightarrow> int \<Rightarrow> mp3_sync \<Rightarrow> mp3_sync option" where
  "mp3_refill tf start_off s =
     (if s_size s \<le> 0 then
        (case mp3_peek_loop tf (u64 (s_skipped s + start_off)) (GST_MP3_TYPEFIND_SYNC_SIZE * 2) of
           (sz, None) \<Rightarrow> None
         | (sz, Some peeked) \<Rightarrow>
             Some (s\<lparr>s_buf := peeked, s_data := 0, s_data_end := 0 + sz, s_size := sz\<rparr>))
      else Some s)"

text \<open>The end of the outer loop body: \<open>data++; skipped++; size--;\<close>\<close>

definition mp3_advance :: "mp3_sync \<Rightarrow> mp3_sync" where
  "mp3_advance s =
     s\<lparr>s_data := s_data s + 1, s_skipped := u64 (s_skipped s + 1), s_size := u32 (s_size s - 1)\<rparr>"

text \<open>
  The outer loop \<open>while (skipped < GST_MP3_TYPEFIND_TRY_SYNC)\<close>, up to the
  point where the function either falls out of the loop (\<open>None\<close>) or reaches
  ``we can make a valid guess'' (\<open>Some\<close>, with the variables at that point).
\<close>

function mp3_sync_loop ::
    "GstTypeFind \<Rightarrow> int \<Rightarrow> mp3_sync \<Rightarrow> error + (mp3_sync \<times> mp3_chain) option" where
  "mp3_sync_loop tf start_off s =
     (if s_skipped s < GST_MP3_TYPEFIND_TRY_SYNC then
        (case mp3_refill tf start_off s of
           None \<Rightarrow> Inr None
         | Some s \<Rightarrow>
        (case rd (s_buf s) (s_data s) of
           Inl e \<Rightarrow> Inl e
         | Inr b \<Rightarrow>
             if b = 0xFF then
               (case mp3_header_loop tf start_off s
                       \<lparr>head_data = False, layer = 0, bitrate = 0, samplerate = 0,
                        channels = 0, found = 0, offset = s_skipped s,
                        last_free_offset = s_last_free_offset s,
                        last_free_framelen = s_last_free_framelen s\<rparr> of
                  Inl e \<Rightarrow> Inl e
                | Inr c \<Rightarrow>
                    if found c = GST_MP3_TYPEFIND_TRY_HEADERS \<or>
                       (found c \<ge> GST_MP3_TYPEFIND_MIN_HEADERS \<and> \<not> head_data c)
                    then Inr (Some (s, c))
                    else mp3_sync_loop tf start_off
                           (mp3_advance (s\<lparr>s_last_free_offset := last_free_offset c,
                                            s_last_free_framelen := last_free_framelen c\<rparr>)))
             else mp3_sync_loop tf start_off (mp3_advance s)))
      else Inr None)"
  by pat_completeness auto
termination
proof (relation "measure (\<lambda>(tf, start_off, s). nat (10000 - s_skipped s))", goal_cases)
  case 1
  show ?case by simp
next
  case (2 tf start_off s s' b c)
  then have "s_skipped s' = s_skipped s"
    by (auto simp: mp3_refill_def split: if_splits prod.splits option.splits)
  with 2(1) show ?case
    by (simp add: mp3_advance_def u64_step GST_MP3_TYPEFIND_TRY_SYNC_def GST_TYPE_FIND_MAXIMUM_def)
next
  case (3 tf start_off s s' b)
  then have "s_skipped s' = s_skipped s"
    by (auto simp: mp3_refill_def split: if_splits prod.splits option.splits)
  with 3(1) show ?case
    by (simp add: mp3_advance_def u64_step GST_MP3_TYPEFIND_TRY_SYNC_def GST_TYPE_FIND_MAXIMUM_def)
qed

declare mp3_sync_loop.simps [simp del]

subsection \<open>audio/mpeg: the probability of a guess\<close>

text \<open>
  The block ``we can make a valid guess'' of \<open>mp3_type_find_at_offset\<close>.
  \<open>found\<close> and \<open>probability\<close> are \<open>guint\<close>, \<open>skipped\<close> and \<open>start_off\<close> are
  \<open>guint64\<close>: the product is formed in 64 bits and the quotient is stored in
  32 bits.
\<close>

definition mp3_probability :: "GstTypeFind \<Rightarrow> int \<Rightarrow> int \<Rightarrow> int \<Rightarrow> error + int" where
  "mp3_probability tf start_off fnd skipped =
     (let probability =
            u32 (u64 (u32 (fnd * GST_TYPE_FIND_MAXIMUM) * u64 (GST_MP3_TYPEFIND_TRY_SYNC - skipped))
                   div GST_MP3_TYPEFIND_TRY_HEADERS div GST_MP3_TYPEFIND_TRY_SYNC);
          probability = (if probability < GST_TYPE_FIND_MINIMUM then GST_TYPE_FIND_MINIMUM
                         else probability);
          probability = (if start_off > 0 then probability div 2 else probability)
      in case gst_type_find_peek tf (- 128) 3 of
           None \<Rightarrow> Inr (u32 (probability * 4) div 5)
         | Some tag \<Rightarrow>
             (case memcmp tag 0 (bytes_of ''TAG'') 3 of
                Inl e \<Rightarrow> Inl e
              | Inr r \<Rightarrow> if r = 0 then Inr 0 else Inr probability))"

text \<open>
  \<open>mp3_type_find_at_offset\<close>: the result is \<open>(*found_layer, *found_prob)\<close>. Both
  start at 0 and are only changed when a guess is made.
\<close>

definition mp3_sync_init :: mp3_sync where
  "mp3_sync_init =
     \<lparr>s_buf = [], s_data = 0, s_data_end = 0, s_size = 0, s_skipped = 0,
      s_last_free_offset = - 1, s_last_free_framelen = - 1\<rparr>"

definition mp3_type_find_at_offset :: "GstTypeFind \<Rightarrow> int \<Rightarrow> error + int \<times> int" where
  "mp3_type_find_at_offset tf start_off =
     (case mp3_sync_loop tf start_off mp3_sync_init of
        Inl e \<Rightarrow> Inl e
      | Inr None \<Rightarrow> Inr (0, 0)
      | Inr (Some (s, c)) \<Rightarrow>
          (case mp3_probability tf start_off (found c) (s_skipped s) of
             Inl e \<Rightarrow> Inl e
           | Inr probability \<Rightarrow> Inr (if probability > 0 then layer c else 0, probability)))"

text \<open>
  What the scan found when it made a guess: \<open>found\<close>, \<open>skipped\<close> and \<open>layer\<close> at
  that point.
\<close>

definition mp3_guess :: "GstTypeFind \<Rightarrow> int \<Rightarrow> error + (int \<times> int \<times> int) option" where
  "mp3_guess tf start_off =
     (case mp3_sync_loop tf start_off mp3_sync_init of
        Inl e \<Rightarrow> Inl e
      | Inr None \<Rightarrow> Inr None
      | Inr (Some (s, c)) \<Rightarrow> Inr (Some (found c, s_skipped s, layer c)))"

text \<open>
  The probability as the specification words it, for comparison with
  \<open>mp3_probability\<close>: \<open>found * MAXIMUM * (TRY_SYNC - skipped) / TRY_HEADERS /
  TRY_SYNC\<close> in exact integer arithmetic, raised to \<open>MINIMUM\<close> if below it,
  halved if the start offset is greater than 0.
\<close>

definition claimed_probability :: "int \<Rightarrow> int \<Rightarrow> int \<Rightarrow> int" where
  "claimed_probability fnd skp start_off =
     (let p = fnd * GST_TYPE_FIND_MAXIMUM * (GST_MP3_TYPEFIND_TRY_SYNC - skp)
                div GST_MP3_TYPEFIND_TRY_HEADERS div GST_MP3_TYPEFIND_TRY_SYNC;
          p = (if p < GST_TYPE_FIND_MINIMUM then GST_TYPE_FIND_MINIMUM else p)
      in if start_off > 0 then p div 2 else p)"

text \<open>
  A well-formed frame, as the scanner reads one: at least four bytes, the
  first four a header that \<open>mp3_type_frame_length_from_header\<close> accepts when
  no free-format length is inferred, and as many bytes in all as the length
  computed from that header. \<open>mp3_frame_layer\<close> is the layer stored for that
  header.
\<close>

definition mp3_frame :: "guint8 list \<Rightarrow> bool" where
  "mp3_frame f =
     (case f of
        b0 # b1 # b2 # b3 # rest \<Rightarrow>
          fst (mp3_type_frame_length_from_header (be32 b0 b1 b2 b3) (- 1)) = int (length f)
      | _ \<Rightarrow> False)"

definition mp3_frame_layer :: "guint8 list \<Rightarrow> int" where
  "mp3_frame_layer f =
     (case f of
        b0 # b1 # b2 # b3 # rest \<Rightarrow>
          (case mp3_type_frame_length_from_header (be32 b0 b1 b2 b3) (- 1) of
             (len, Some h, fr) \<Rightarrow> put_layer h
           | (len, None, fr) \<Rightarrow> 0)
      | _ \<Rightarrow> 0)"

subsection \<open>audio/mpeg: the typefind function\<close>

text \<open>The label \<open>suggest\<close>: the caps \<open>audio/mpeg, mpegversion=1\<close> with the layer set.\<close>

definition mp3_suggest :: "int \<Rightarrow> int \<Rightarrow> suggestion option" where
  "mp3_suggest lay prob = Some (prob, (''audio/mpeg'', [(''mpegversion'', 1), (''layer'', lay)]))"

definition mp3_type_find :: "GstTypeFind \<Rightarrow> error + suggestion option" where
  "mp3_type_find tf =
     (case mp3_type_find_at_offset tf 0 of
        Inl e \<Rightarrow> Inl e
      | Inr (lay, prob) \<Rightarrow>
     (let len = gst_type_find_get_length tf
      in if len = 0 \<or> len = u64 (- 1) then
           (if prob \<noteq> 0 then Inr (mp3_suggest lay prob) else Inr None)
         else if prob \<ge> GST_TYPE_FIND_LIKELY then Inr (mp3_suggest lay prob)
         else
     (case mp3_type_find_at_offset tf (len div 2) of
        Inl e \<Rightarrow> Inl e
      | Inr (mid_layer, mid_prob) \<Rightarrow>
          if mid_prob > 0 then
            (if prob = 0 then Inr (mp3_suggest mid_layer mid_prob)
             else if lay \<noteq> mid_layer then Inr None
             else Inr (mp3_suggest lay ((prob + mid_prob) div 2)))
          else
     (case gst_type_find_peek tf 0 4 of
        None \<Rightarrow> if prob > 0 then Inr (mp3_suggest lay prob) else Inr None
      | Some data \<Rightarrow>
     (case GST_READ_UINT32_BE data 0 of
        Inl e \<Rightarrow> Inl e
      | Inr head \<Rightarrow>
     (case mp3_type_frame_length_from_header head 0 of
        (flen, hdr, free) \<Rightarrow>
          (let lay = (case hdr of None \<Rightarrow> lay | Some h \<Rightarrow> put_layer h);
               prob = (if flen \<noteq> 0 then
                         (if prob = 0 then GST_TYPE_FIND_POSSIBLE - 10
                          else max (GST_TYPE_FIND_POSSIBLE - 10) (prob + 10))
                       else prob)
           in if prob > 0 then Inr (mp3_suggest lay prob) else Inr None)))))))"

section \<open>Properties\<close>

subsection \<open>Auxiliary facts\<close>

lemma gst_type_find_peek_length:
  "gst_type_find_peek tf off sz = Some w \<Longrightarrow> length w = nat (u32 sz)"
  by (auto simp: gst_type_find_peek_def split: option.splits if_splits)

lemma stream_peek_in:
  assumes "0 \<le> off" "off < 2 ^ 63" "0 < sz" "sz < 2 ^ 32"
  shows "gst_type_find_peek (stream_tf bs known) off sz =
           (if off + sz \<le> int (length bs) then Some (take (nat sz) (drop (nat off) bs)) else None)"
proof -
  have a: "s64 off = off" using assms(1,2) by (simp add: s64_def)
  have b: "u32 sz = sz" using assms(3,4) by (simp add: u32_def)
  show ?thesis
    using assms(1,3)
    by (auto simp: gst_type_find_peek_def stream_tf_def stream_peek_def a b Let_def)
qed

lemma strncmp_numeral [simp]:
  "strncmp w i lit (numeral k) =
     (case rd w i of
        Inl e \<Rightarrow> Inl e
      | Inr b \<Rightarrow>
          (let c = (case lit of [] \<Rightarrow> 0 | c # _ \<Rightarrow> c)
           in if b \<noteq> c then Inr (uint b - uint c)
              else if b = 0 then Inr 0
              else strncmp w (i + 1) (tl lit) (pred_numeral k)))"
  by (simp add: numeral_eq_Suc)

lemma memcmp_numeral [simp]:
  "memcmp w i (c # lit) (numeral k) =
     (case rd w i of
        Inl e \<Rightarrow> Inl e
      | Inr b \<Rightarrow> if b \<noteq> c then Inr (uint b - uint c)
                 else memcmp w (i + 1) lit (pred_numeral k))"
  by (simp add: numeral_eq_Suc)

lemma mp3_peek_loop_step:
  "mp3_peek_loop tf off (2 * n) =
     (if n > 10 \<and> gst_type_find_peek tf off n = None then mp3_peek_loop tf off n
      else (n, gst_type_find_peek tf off n))"
  by (subst mp3_peek_loop.simps) (simp add: Let_def)

lemma mp3_peek_loop_16: "mp3_peek_loop tf off 16 = (8, gst_type_find_peek tf off 8)"
  using mp3_peek_loop_step [of tf off 8] by simp

text \<open>The sizes tried by the peek loop: 2048, 1024, ..., 16, 8.\<close>

lemma mp3_peek_loop_sizes:
  "mp3_peek_loop tf off 4096 =
     (if gst_type_find_peek tf off 2048 \<noteq> None then (2048, gst_type_find_peek tf off 2048)
      else if gst_type_find_peek tf off 1024 \<noteq> None then (1024, gst_type_find_peek tf off 1024)
      else if gst_type_find_peek tf off 512 \<noteq> None then (512, gst_type_find_peek tf off 512)
      else if gst_type_find_peek tf off 256 \<noteq> None then (256, gst_type_find_peek tf off 256)
      else if gst_type_find_peek tf off 128 \<noteq> None then (128, gst_type_find_peek tf off 128)
      else if gst_type_find_peek tf off 64 \<noteq> None then (64, gst_type_find_peek tf off 64)
      else if gst_type_find_peek tf off 32 \<noteq> None then (32, gst_type_find_peek tf off 32)
      else if gst_type_find_peek tf off 16 \<noteq> None then (16, gst_type_find_peek tf off 16)
      else (8, gst_type_find_peek tf off 8))"
  using mp3_peek_loop_step [of tf off 2048] mp3_peek_loop_step [of tf off 1024]
    mp3_peek_loop_step [of tf off 512] mp3_peek_loop_step [of tf off 256]
    mp3_peek_loop_step [of tf off 128] mp3_peek_loop_step [of tf off 64]
    mp3_peek_loop_step [of tf off 32] mp3_peek_loop_step [of tf off 16]
    mp3_peek_loop_16 [of tf off]
  by simp

subsection \<open>Insufficient data\<close>
















subsection \<open>The box walker\<close>

text \<open>
  One round of the walk on a box of one of the common types, with \<open>sz32\<close> the
  value read by \<open>GST_READ_UINT32_BE\<close>.
\<close>

lemma qt_box_size:
  assumes "qt_type_in data [''moov'', ''mdat'', ''ftyp'', ''free'', ''skip''] = Inr True"
      and "GST_READ_UINT32_BE data 0 = Inr sz32"
  shows "qt_box tf tip cursor data =
           (let tip' = (if tip = 0 then GST_TYPE_FIND_LIKELY else GST_TYPE_FIND_NEARLY_CERTAIN)
            in if uint sz32 = 1 then
                 (case gst_type_find_peek tf (u64 (cursor + 8)) 8 of
                    None \<Rightarrow> Inr (Stop tip')
                  | Some sizedata \<Rightarrow> Inr (Advance tip' (u64 (cursor + be_value sizedata 0))))
               else if uint sz32 < 8 then Inr (Stop tip')
               else Inr (Advance tip' (u64 (cursor + uint sz32))))"
proof (cases "gst_type_find_peek tf (u64 (cursor + 8)) 8")
  case None
  with assms show ?thesis by (simp add: qt_box_def)
next
  case (Some sizedata)
  then have "length sizedata = 8"
    using gst_type_find_peek_length [OF Some] by (simp add: u32_def)
  then have "GST_READ_UINT64_BE sizedata = Inr (be_value sizedata 0)"
    by (simp add: GST_READ_UINT64_BE_def)
  with assms Some show ?thesis by (simp add: qt_box_def)
qed

text \<open>The value of the big-endian reads, byte by byte.\<close>

lemma uint_byte_shift:
  fixes b :: guint8
  assumes "n \<le> 24"
  shows "uint (push_bit n (ucast b :: guint32)) = uint b * 2 ^ n"
proof -
  have lt: "uint b < 2 ^ 8" using uint_bounded [of b] by simp
  have "uint b * 2 ^ n < 2 ^ 8 * 2 ^ n"
    using lt by simp
  also have "\<dots> = (2::int) ^ (8 + n)" by (simp add: power_add)
  also have "\<dots> \<le> 2 ^ 32" using assms by (intro power_increasing) auto
  finally have b: "uint b * 2 ^ n < 2 ^ 32" .
  have "uint (push_bit n (ucast b :: guint32)) = take_bit 32 (push_bit n (uint (ucast b :: guint32)))"
    by (simp add: unsigned_push_bit_eq)
  also have "uint (ucast b :: guint32) = uint b"
    by (simp add: uint_up_ucast is_up)
  also have "take_bit 32 (push_bit n (uint b)) = uint b * 2 ^ n"
    using b by (simp add: push_bit_eq_mult take_bit_eq_mod)
  finally show ?thesis .
qed

lemma uint_be32:
  "uint (be32 b0 b1 b2 b3) = uint b0 * 2 ^ 24 + uint b1 * 2 ^ 16 + uint b2 * 2 ^ 8 + uint b3"
proof -
  let ?A = "push_bit 24 (ucast b0) :: guint32"
  let ?B = "push_bit 16 (ucast b1) :: guint32"
  let ?C = "push_bit 8 (ucast b2) :: guint32"
  let ?D = "ucast b3 :: guint32"
  have d1: "?A AND ?B = 0"
    by (rule bit_word_eqI) (auto simp add: bit_simps dest: bit_imp_le_length)
  have d2: "(?A OR ?B) AND ?C = 0"
    by (rule bit_word_eqI) (auto simp add: bit_simps dest: bit_imp_le_length)
  have d3: "((?A OR ?B) OR ?C) AND ?D = 0"
    by (rule bit_word_eqI) (auto simp add: bit_simps dest: bit_imp_le_length)
  have "be32 b0 b1 b2 b3 = ((?A OR ?B) OR ?C) OR ?D"
    by (simp add: be32_def or.assoc)
  also have "\<dots> = ((?A + ?B) + ?C) + ?D"
    using d1 d2 d3 by (simp add: disjunctive_add_eq_or)
  finally have e: "be32 b0 b1 b2 b3 = ?A + ?B + ?C + ?D" .
  have u: "uint ?A = uint b0 * 2 ^ 24" "uint ?B = uint b1 * 2 ^ 16" "uint ?C = uint b2 * 2 ^ 8"
    "uint ?D = uint b3"
    using uint_byte_shift [of 24 b0] uint_byte_shift [of 16 b1] uint_byte_shift [of 8 b2]
      uint_byte_shift [of 0 b3] by simp_all
  have lt: "uint b0 < 256" "uint b1 < 256" "uint b2 < 256" "uint b3 < 256"
    "0 \<le> uint b0" "0 \<le> uint b1" "0 \<le> uint b2" "0 \<le> uint b3"
    using uint_bounded [of b0] uint_bounded [of b1] uint_bounded [of b2] uint_bounded [of b3]
    by simp_all
  have "uint (?A + ?B + ?C + ?D) = (uint ?A + uint ?B + uint ?C + uint ?D) mod 2 ^ 32"
    by (simp add: uint_word_ariths mod_simps)
  also have "\<dots> = uint b0 * 2 ^ 24 + uint b1 * 2 ^ 16 + uint b2 * 2 ^ 8 + uint b3"
    unfolding u using lt by (intro mod_pos_pos_trivial) auto
  finally show ?thesis by (simp only: e)
qed


lemma be_value_8:
  assumes "length sd = 8"
  shows "be_value sd 0 =
           uint (sd ! 0) * 2 ^ 56 + uint (sd ! 1) * 2 ^ 48 + uint (sd ! 2) * 2 ^ 40 +
           uint (sd ! 3) * 2 ^ 32 + uint (sd ! 4) * 2 ^ 24 + uint (sd ! 5) * 2 ^ 16 +
           uint (sd ! 6) * 2 ^ 8 + uint (sd ! 7)"
proof -
  from assms have "length sd = Suc (Suc (Suc (Suc (Suc (Suc (Suc (Suc 0)))))))"
    by simp
  then obtain s0 s1 s2 s3 s4 s5 s6 s7 where "sd = [s0, s1, s2, s3, s4, s5, s6, s7]"
    by (auto simp: length_Suc_conv)
  then show ?thesis by simp
qed

lemma qt_type_common:
  assumes "ty \<in> {''moov'', ''mdat'', ''ftyp'', ''free'', ''skip''}"
  shows "qt_type_in ([b0, b1, b2, b3] @ bytes_of ty)
           [''moov'', ''mdat'', ''ftyp'', ''free'', ''skip''] = Inr True"
  using assms by (elim insertE emptyE) (simp_all add: bytes_of_def rd_def)

lemma read_size32:
  "GST_READ_UINT32_BE ([b0, b1, b2, b3] @ rest) 0 = Inr (be32 b0 b1 b2 b3)"
  by (simp add: GST_READ_UINT32_BE_def rd_def)

text \<open>A round of the loop that leaves it, and a round that goes on.\<close>

lemma qt_walk_round:
  assumes "gst_type_find_peek tf cursor 8 = Some data"
  shows "qt_box tf tip cursor data = Inr (Stop t) \<Longrightarrow> qt_walk tf tip cursor = Some (Inr t)"
    and "qt_box tf tip cursor data = Inr (Advance t off) \<Longrightarrow>
           qt_walk tf tip cursor = qt_walk tf t off"
  by (subst qt_walk.simps, simp add: assms)+

text \<open>
  Claim C6. The walk of \<open>qt_type_find\<close>, at a cursor where 8 bytes can be
  peeked and hold a box of one of the common types (\<open>moov\<close>, \<open>mdat\<close>, \<open>ftyp\<close>,
  \<open>free\<close>, \<open>skip\<close>): the size field is the first four bytes, read big-endian.
  If it is 1, the size is the big-endian value of the 8 bytes peeked at
  \<open>cursor + 8\<close>, and the walk ends there if they cannot be peeked; any other
  value below 8 ends the walk; otherwise the walk goes on at the cursor plus
  the size. The cursor is a \<open>guint64\<close>: the sum is taken modulo \<open>2 ^ 64\<close>, so
  the cursor advances by exactly the size only while the sum stays below
  \<open>2 ^ 64\<close>. A walk that ends on such a box ends with the tip of that round.
\<close>

theorem qt_walk_box_size:
  assumes "gst_type_find_peek tf cursor 8 = Some ([b0, b1, b2, b3] @ bytes_of ty)"
      and "ty \<in> {''moov'', ''mdat'', ''ftyp'', ''free'', ''skip''}"
  shows "qt_walk tf tip cursor =
           (let size32 = uint b0 * 2 ^ 24 + uint b1 * 2 ^ 16 + uint b2 * 2 ^ 8 + uint b3;
                tip' = (if tip = 0 then GST_TYPE_FIND_LIKELY else GST_TYPE_FIND_NEARLY_CERTAIN)
            in if size32 = 1 then
                 (case gst_type_find_peek tf ((cursor + 8) mod 2 ^ 64) 8 of
                    None \<Rightarrow> Some (Inr tip')
                  | Some sd \<Rightarrow>
                      qt_walk tf tip'
                        ((cursor +
                          (uint (sd ! 0) * 2 ^ 56 + uint (sd ! 1) * 2 ^ 48 + uint (sd ! 2) * 2 ^ 40 +
                           uint (sd ! 3) * 2 ^ 32 + uint (sd ! 4) * 2 ^ 24 + uint (sd ! 5) * 2 ^ 16 +
                           uint (sd ! 6) * 2 ^ 8 + uint (sd ! 7))) mod 2 ^ 64))
               else if size32 < 8 then Some (Inr tip')
               else qt_walk tf tip' ((cursor + size32) mod 2 ^ 64))"
proof -
  let ?data = "[b0, b1, b2, b3] @ bytes_of ty"
  let ?sz = "uint b0 * 2 ^ 24 + uint b1 * 2 ^ 16 + uint b2 * 2 ^ 8 + uint b3"
  let ?tip = "if tip = 0 then GST_TYPE_FIND_LIKELY else GST_TYPE_FIND_NEARLY_CERTAIN"
  note box = qt_box_size [OF qt_type_common [OF assms(2)] read_size32,
      where tf = tf and tip = tip and cursor = cursor]
  have u: "uint (be32 b0 b1 b2 b3) = ?sz" by (rule uint_be32)
  have w: "qt_walk tf tip cursor =
      (case qt_box tf tip cursor ?data of
             Inl e \<Rightarrow> Some (Inl e)
           | Inr (Stop t) \<Rightarrow> Some (Inr t)
           | Inr (Advance t off) \<Rightarrow> qt_walk tf t off)"
    by (subst qt_walk.simps) (simp add: assms(1))
  show ?thesis
  proof (cases "?sz = 1")
    case True
    show ?thesis
    proof (cases "gst_type_find_peek tf (u64 (cursor + 8)) 8")
      case None
      with True box u w show ?thesis by (simp add: Let_def u64_def)
    next
      case (Some sd)
      then have "length sd = 8"
        using gst_type_find_peek_length [OF Some] by (simp add: u32_def)
      note be_value_8 [OF this]
      with Some True box u w show ?thesis by (simp add: Let_def u64_def)
    qed
  next
    case False
    with box u w show ?thesis by (simp add: Let_def u64_def)
  qed
qed

text \<open>
  A stream of three boxes: \<open>ftyp\<close> of size 260, \<open>mdat\<close> with the sentinel 1 and
  the extended size 258, then \<open>wide\<close>. The walk visits the cursors 0, 260 and
  518, and the probe suggests \<open>video/quicktime\<close> with probability 100.
\<close>

theorem qt_walk_box_size_witness:
  "gst_type_find_peek (stream_tf (([0, 0, 1, 4] @ bytes_of ''ftyp'' @ replicate 252 0) @ ([0, 0, 0, 1] @ bytes_of ''mdat'' @ [0, 0, 0, 0, 0, 0, 1, 2] @ replicate 242 0) @ ([0, 0, 0, 8] @ bytes_of ''wide'')) True) 0 8 = Some ([0, 0, 1, 4] @ bytes_of ''ftyp'') \<and>
   qt_walk (stream_tf (([0, 0, 1, 4] @ bytes_of ''ftyp'' @ replicate 252 0) @ ([0, 0, 0, 1] @ bytes_of ''mdat'' @ [0, 0, 0, 0, 0, 0, 1, 2] @ replicate 242 0) @ ([0, 0, 0, 8] @ bytes_of ''wide'')) True) 0 0 = qt_walk (stream_tf (([0, 0, 1, 4] @ bytes_of ''ftyp'' @ replicate 252 0) @ ([0, 0, 0, 1] @ bytes_of ''mdat'' @ [0, 0, 0, 0, 0, 0, 1, 2] @ replicate 242 0) @ ([0, 0, 0, 8] @ bytes_of ''wide'')) True) 80 260 \<and>
   gst_type_find_peek (stream_tf (([0, 0, 1, 4] @ bytes_of ''ftyp'' @ replicate 252 0) @ ([0, 0, 0, 1] @ bytes_of ''mdat'' @ [0, 0, 0, 0, 0, 0, 1, 2] @ replicate 242 0) @ ([0, 0, 0, 8] @ bytes_of ''wide'')) True) 260 8 = Some ([0, 0, 0, 1] @ bytes_of ''mdat'') \<and>
   gst_type_find_peek (stream_tf (([0, 0, 1, 4] @ bytes_of ''ftyp'' @ replicate 252 0) @ ([0, 0, 0, 1] @ bytes_of ''mdat'' @ [0, 0, 0, 0, 0, 0, 1, 2] @ replicate 242 0) @ ([0, 0, 0, 8] @ bytes_of ''wide'')) True) 268 8 = Some [0, 0, 0, 0, 0, 0, 1, 2] \<and>
   qt_walk (stream_tf (([0, 0, 1, 4] @ bytes_of ''ftyp'' @ replicate 252 0) @ ([0, 0, 0, 1] @ bytes_of ''mdat'' @ [0, 0, 0, 0, 0, 0, 1, 2] @ replicate 242 0) @ ([0, 0, 0, 8] @ bytes_of ''wide'')) True) 80 260 = qt_walk (stream_tf (([0, 0, 1, 4] @ bytes_of ''ftyp'' @ replicate 252 0) @ ([0, 0, 0, 1] @ bytes_of ''mdat'' @ [0, 0, 0, 0, 0, 0, 1, 2] @ replicate 242 0) @ ([0, 0, 0, 8] @ bytes_of ''wide'')) True) 99 518 \<and>
   qt_type_find (stream_tf (([0, 0, 1, 4] @ bytes_of ''ftyp'' @ replicate 252 0) @ ([0, 0, 0, 1] @ bytes_of ''mdat'' @ [0, 0, 0, 0, 0, 0, 1, 2] @ replicate 242 0) @ ([0, 0, 0, 8] @ bytes_of ''wide'')) True) = Some (Inr (Some (100, (''video/quicktime'', []))))"
proof -
  let ?tf = "(stream_tf (([0, 0, 1, 4] @ bytes_of ''ftyp'' @ replicate 252 0) @ ([0, 0, 0, 1] @ bytes_of ''mdat'' @ [0, 0, 0, 0, 0, 0, 1, 2] @ replicate 242 0) @ ([0, 0, 0, 8] @ bytes_of ''wide'')) True)"
  have ty: "''ftyp'' \<in> {''moov'', ''mdat'', ''ftyp'', ''free'', ''skip''}"
    "''mdat'' \<in> {''moov'', ''mdat'', ''ftyp'', ''free'', ''skip''}"
    by simp_all
  have p0: "gst_type_find_peek ?tf 0 8 = Some ([0, 0, 1, 4] @ bytes_of ''ftyp'')"
    by code_simp
  have p1: "gst_type_find_peek ?tf 260 8 = Some ([0, 0, 0, 1] @ bytes_of ''mdat'')"
    by code_simp
  have p2: "gst_type_find_peek ?tf 268 8 = Some [0, 0, 0, 0, 0, 0, 1, 2]"
    by code_simp
  have s1: "qt_walk ?tf 0 0 = qt_walk ?tf 80 260"
    using qt_walk_box_size [OF p0 ty(1), of 0]
    by (simp add: Let_def GST_TYPE_FIND_LIKELY_def)
  have s2: "qt_walk ?tf 80 260 = qt_walk ?tf 99 518"
    using qt_walk_box_size [OF p1 ty(2), of 80] p2
    by (simp add: Let_def GST_TYPE_FIND_NEARLY_CERTAIN_def)
  have p3: "gst_type_find_peek ?tf 518 8 = Some ([0, 0, 0, 8] @ bytes_of ''wide'')"
    by code_simp
  have b3: "qt_box ?tf 99 518 ([0, 0, 0, 8] @ bytes_of ''wide'') = Inr (Stop 100)"
    by code_simp
  have s3: "qt_walk ?tf 99 518 = Some (Inr 100)"
    by (rule qt_walk_round(1) [OF p3 b3])
  have "qt_type_find ?tf = Some (Inr (Some (100, (''video/quicktime'', []))))"
    unfolding qt_type_find_def s1 s2 s3 by simp
  with p0 p1 p2 s1 s2 show ?thesis by simp
qed

text \<open>
  The cursor does not always advance by the size. In this stream the box at
  16 has the extended size \<open>2 ^ 64 - 8\<close>: the walk goes on at cursor 8, which
  is \<open>16 + (2 ^ 64 - 8)\<close> modulo \<open>2 ^ 64\<close>, finds \<open>wide\<close> there, and the probe
  suggests \<open>video/quicktime\<close> with probability 100.
\<close>

theorem qt_walk_box_size_counterexample:
  "gst_type_find_peek (stream_tf (([0, 0, 0, 16] @ bytes_of ''free'' @ [0, 0, 0, 8] @ bytes_of ''wide'') @ ([0, 0, 0, 1] @ bytes_of ''mdat'' @ [0xFF, 0xFF, 0xFF, 0xFF, 0xFF, 0xFF, 0xFF, 0xF8])) True) 16 8 = Some ([0, 0, 0, 1] @ bytes_of ''mdat'') \<and>
   gst_type_find_peek (stream_tf (([0, 0, 0, 16] @ bytes_of ''free'' @ [0, 0, 0, 8] @ bytes_of ''wide'') @ ([0, 0, 0, 1] @ bytes_of ''mdat'' @ [0xFF, 0xFF, 0xFF, 0xFF, 0xFF, 0xFF, 0xFF, 0xF8])) True) 24 8 = Some [0xFF, 0xFF, 0xFF, 0xFF, 0xFF, 0xFF, 0xFF, 0xF8] \<and>
   GST_READ_UINT64_BE [0xFF, 0xFF, 0xFF, 0xFF, 0xFF, 0xFF, 0xFF, 0xF8] = Inr (2 ^ 64 - 8) \<and>
   qt_box (stream_tf (([0, 0, 0, 16] @ bytes_of ''free'' @ [0, 0, 0, 8] @ bytes_of ''wide'') @ ([0, 0, 0, 1] @ bytes_of ''mdat'' @ [0xFF, 0xFF, 0xFF, 0xFF, 0xFF, 0xFF, 0xFF, 0xF8])) True) 80 16 ([0, 0, 0, 1] @ bytes_of ''mdat'') = Inr (Advance 99 8) \<and>
   qt_walk (stream_tf (([0, 0, 0, 16] @ bytes_of ''free'' @ [0, 0, 0, 8] @ bytes_of ''wide'') @ ([0, 0, 0, 1] @ bytes_of ''mdat'' @ [0xFF, 0xFF, 0xFF, 0xFF, 0xFF, 0xFF, 0xFF, 0xF8])) True) 80 16 = qt_walk (stream_tf (([0, 0, 0, 16] @ bytes_of ''free'' @ [0, 0, 0, 8] @ bytes_of ''wide'') @ ([0, 0, 0, 1] @ bytes_of ''mdat'' @ [0xFF, 0xFF, 0xFF, 0xFF, 0xFF, 0xFF, 0xFF, 0xF8])) True) 99 8 \<and>
   qt_type_find (stream_tf (([0, 0, 0, 16] @ bytes_of ''free'' @ [0, 0, 0, 8] @ bytes_of ''wide'') @ ([0, 0, 0, 1] @ bytes_of ''mdat'' @ [0xFF, 0xFF, 0xFF, 0xFF, 0xFF, 0xFF, 0xFF, 0xF8])) True) = Some (Inr (Some (100, (''video/quicktime'', []))))"
proof -
  let ?tf = "(stream_tf (([0, 0, 0, 16] @ bytes_of ''free'' @ [0, 0, 0, 8] @ bytes_of ''wide'') @ ([0, 0, 0, 1] @ bytes_of ''mdat'' @ [0xFF, 0xFF, 0xFF, 0xFF, 0xFF, 0xFF, 0xFF, 0xF8])) True)"
  have p0: "gst_type_find_peek ?tf 0 8 = Some ([0, 0, 0, 16] @ bytes_of ''free'')"
    by code_simp
  have b0: "qt_box ?tf 0 0 ([0, 0, 0, 16] @ bytes_of ''free'') = Inr (Advance 80 16)"
    by code_simp
  have p1: "gst_type_find_peek ?tf 16 8 = Some ([0, 0, 0, 1] @ bytes_of ''mdat'')"
    by code_simp
  have p2: "gst_type_find_peek ?tf 24 8 = Some [0xFF, 0xFF, 0xFF, 0xFF, 0xFF, 0xFF, 0xFF, 0xF8]"
    by code_simp
  have v: "GST_READ_UINT64_BE [0xFF, 0xFF, 0xFF, 0xFF, 0xFF, 0xFF, 0xFF, 0xF8] = Inr (2 ^ 64 - 8)"
    by code_simp
  have b1: "qt_box ?tf 80 16 ([0, 0, 0, 1] @ bytes_of ''mdat'') = Inr (Advance 99 8)"
    by code_simp
  have p3: "gst_type_find_peek ?tf 8 8 = Some ([0, 0, 0, 8] @ bytes_of ''wide'')"
    by code_simp
  have b3: "qt_box ?tf 99 8 ([0, 0, 0, 8] @ bytes_of ''wide'') = Inr (Stop 100)"
    by code_simp
  note s1 = qt_walk_round(2) [OF p0 b0]
  note s2 = qt_walk_round(2) [OF p1 b1]
  note s3 = qt_walk_round(1) [OF p3 b3]
  have "qt_type_find ?tf = Some (Inr (Some (100, (''video/quicktime'', []))))"
    unfolding qt_type_find_def s1 s2 s3 by simp
  with p1 p2 v b1 s2 show ?thesis by simp
qed

subsection \<open>Reads outside the peeked window\<close>

text \<open>
  Claim C9. The Matroska probe peeks 5 bytes. On a stream that starts with
  the EBML ID and a length byte \<open>0x40\<close> (a length field of width 2), the
  probe reads \<open>data[5]\<close>: an index that is not below 5.
\<close>

theorem matroska_reads_outside_window:
  "matroska_type_find (stream_tf [0x1A, 0x45, 0xDF, 0xA3, 0x40, 0x05, 0, 0, 0, 0, 0] True)
     = Inl (OutOfWindow 5 5)"
  by code_simp

text \<open>
  Claim C10. The AIFF probe and the SVX probe peek 4 bytes. On a stream
  that starts with \<open>FORM\<close> both compare the bytes at index 8 and above of
  that 4-byte window: the first byte read there is outside it.
\<close>

theorem form_probes_read_outside_window:
  "aiff_type_find (stream_tf (bytes_of ''FORM'' @ [0, 0, 0, 0] @ bytes_of ''AIFF'') True)
     = Inl (OutOfWindow 8 4) \<and>
   svx_type_find (stream_tf (bytes_of ''FORM'' @ [0, 0, 0, 0] @ bytes_of ''8SVX'') True)
     = Inl (OutOfWindow 8 4)"
  by code_simp

subsection \<open>The header chain\<close>

text \<open>
  Claim C1. The stream below holds five frames and 128 bytes of padding.
  The first frame and the last three are MPEG-2 layer 3, stereo, 24000 Hz
  (24 bytes); the second is layer 2, mono, 22050 Hz (52 bytes). The round
  that parses the second header, after the first was counted, counts it:
  \<open>found\<close> goes from 1 to 2. The scan then reports five headers found with
  nothing skipped, and probability 100.
\<close>

theorem mp3_changed_header_is_counted:
  "mp3_header_round
     (stream_tf (([0xFF, 0xF3, 0x14, 0x00] @ replicate 20 0) @
                 ([0xFF, 0xF5, 0x10, 0xC0] @ replicate 48 0) @
                 ([0xFF, 0xF3, 0x14, 0x00] @ replicate 20 0) @
                 ([0xFF, 0xF3, 0x14, 0x00] @ replicate 20 0) @
                 ([0xFF, 0xF3, 0x14, 0x00] @ replicate 20 0) @ replicate 128 0) True) 0
     \<lparr>s_buf = ([0xFF, 0xF3, 0x14, 0x00] @ replicate 20 0) @
              ([0xFF, 0xF5, 0x10, 0xC0] @ replicate 48 0) @
              ([0xFF, 0xF3, 0x14, 0x00] @ replicate 20 0) @
              ([0xFF, 0xF3, 0x14, 0x00] @ replicate 20 0) @
              ([0xFF, 0xF3, 0x14, 0x00] @ replicate 20 0) @ replicate 108 0,
      s_data = 0, s_data_end = 256, s_size = 256, s_skipped = 0,
      s_last_free_offset = - 1, s_last_free_framelen = - 1\<rparr>
     \<lparr>head_data = True, layer = 3, bitrate = 8, samplerate = 24000, channels = 2,
      found = 1, offset = 24, last_free_offset = - 1, last_free_framelen = - 1\<rparr>
   = Inr (Next \<lparr>head_data = True, layer = 2, bitrate = 8, samplerate = 22050, channels = 1,
                 found = 2, offset = 76, last_free_offset = - 1, last_free_framelen = - 1\<rparr>) \<and>
   mp3_guess
     (stream_tf (([0xFF, 0xF3, 0x14, 0x00] @ replicate 20 0) @
                 ([0xFF, 0xF5, 0x10, 0xC0] @ replicate 48 0) @
                 ([0xFF, 0xF3, 0x14, 0x00] @ replicate 20 0) @
                 ([0xFF, 0xF3, 0x14, 0x00] @ replicate 20 0) @
                 ([0xFF, 0xF3, 0x14, 0x00] @ replicate 20 0) @ replicate 128 0) True) 0
   = Inr (Some (5, 0, 3)) \<and>
   mp3_type_find_at_offset
     (stream_tf (([0xFF, 0xF3, 0x14, 0x00] @ replicate 20 0) @
                 ([0xFF, 0xF5, 0x10, 0xC0] @ replicate 48 0) @
                 ([0xFF, 0xF3, 0x14, 0x00] @ replicate 20 0) @
                 ([0xFF, 0xF3, 0x14, 0x00] @ replicate 20 0) @
                 ([0xFF, 0xF3, 0x14, 0x00] @ replicate 20 0) @ replicate 128 0) True) 0
   = Inr (3, 100)"
  by code_simp

text \<open>
  The free-format flag is set exactly for a header that passes the sync and
  sample-rate checks, has bitrate index 0, and is parsed while no frame
  length is inferred.
\<close>

lemma header_free_flag:
  assumes "mp3_type_frame_length_from_header h pff = (flen, hdr, True)"
  shows "flen = 0 \<and> hdr = None \<and> pff = - 1 \<and> uint (drop_bit 12 h AND 0xF) = 0"
  using assms
  by (auto simp: mp3_type_frame_length_from_header_def Let_def drop_bit_drop_bit
      split: if_splits prod.splits)

lemma header_free_flag_iff:
  "(\<exists>flen hdr. mp3_type_frame_length_from_header h pff = (flen, hdr, True)) \<longleftrightarrow>
   (h AND 0xffe00000 = 0xffe00000 \<and> uint (drop_bit 10 h AND 0x3) \<noteq> 3 \<and>
    uint (drop_bit 12 h AND 0xF) = 0 \<and> pff = - 1)"
  by (auto simp: mp3_type_frame_length_from_header_def Let_def drop_bit_drop_bit
      split: if_splits prod.splits)

lemma header_inferred_length:
  assumes "pff \<noteq> - 1" and "uint (drop_bit 12 h AND 0xF) = 0"
    and "mp3_type_frame_length_from_header h pff = (flen, Some hdr, fr)"
  shows "flen = (if put_layer hdr = 1 then u32 (u32 (uint (drop_bit 9 h AND 1) * 4) + pff)
                 else u32 (uint (drop_bit 9 h AND 1) + pff))"
  using assms
  by (auto simp: mp3_type_frame_length_from_header_def Let_def drop_bit_drop_bit
      split: if_splits prod.splits)

text \<open>
  Claim C7. When a header sets the free-format flag (it has bitrate index 0
  and no frame length is inferred yet): if no offset is recorded, the round
  records the header's offset and leaves the header loop, so the chain ends
  there; otherwise it sets the inferred frame length to the distance from
  the recorded offset (as a 32-bit signed integer) and goes back to the loop
  test with \<open>offset\<close> at the recorded offset and \<open>found\<close> unchanged. Once a
  length is inferred, the length returned for a header with bitrate index 0
  is that length plus the padding (padding times 4 for layer 1).
\<close>

theorem mp3_free_format_round:
  assumes "mp3_head_data tf start_off s c = Some (hbuf, hix)"
      and "GST_READ_UINT32_BE hbuf hix = Inr head"
  shows "(\<forall>flen hdr.
            mp3_type_frame_length_from_header head (last_free_framelen c) = (flen, hdr, True) \<longrightarrow>
            uint (drop_bit 12 head AND 0xF) = 0 \<and> last_free_framelen c = - 1 \<and>
            mp3_header_round tf start_off s c =
              Inr (if last_free_offset c = - 1
                   then Break (c\<lparr>head_data := True, last_free_offset := s32 (offset c)\<rparr>)
                   else Next (c\<lparr>head_data := True,
                                last_free_framelen := s32 (offset c - last_free_offset c),
                                offset := u64 (last_free_offset c)\<rparr>))) \<and>
         (\<forall>flen hdr fr.
            uint (drop_bit 12 head AND 0xF) = 0 \<and> last_free_framelen c \<noteq> - 1 \<and>
            mp3_type_frame_length_from_header head (last_free_framelen c) = (flen, Some hdr, fr) \<longrightarrow>
            flen = (if put_layer hdr = 1
                    then u32 (u32 (uint (drop_bit 9 head AND 1) * 4) + last_free_framelen c)
                    else u32 (uint (drop_bit 9 head AND 1) + last_free_framelen c)))"
proof (intro conjI allI impI)
  fix flen hdr
  assume f: "mp3_type_frame_length_from_header head (last_free_framelen c) = (flen, hdr, True)"
  from header_free_flag [OF f]
  show "uint (drop_bit 12 head AND 0xF) = 0" and "last_free_framelen c = - 1"
    by simp_all
  from assms f header_free_flag [OF f]
  show "mp3_header_round tf start_off s c =
          Inr (if last_free_offset c = - 1
               then Break (c\<lparr>head_data := True, last_free_offset := s32 (offset c)\<rparr>)
               else Next (c\<lparr>head_data := True,
                            last_free_framelen := s32 (offset c - last_free_offset c),
                            offset := u64 (last_free_offset c)\<rparr>))"
    by (simp add: mp3_header_round_def)
next
  fix flen hdr fr
  assume "uint (drop_bit 12 head AND 0xF) = 0 \<and> last_free_framelen c \<noteq> - 1 \<and>
    mp3_type_frame_length_from_header head (last_free_framelen c) = (flen, Some hdr, fr)"
  then show "flen = (if put_layer hdr = 1
                    then u32 (u32 (uint (drop_bit 9 head AND 1) * 4) + last_free_framelen c)
                    else u32 (uint (drop_bit 9 head AND 1) + last_free_framelen c))"
    using header_inferred_length by blast
qed

text \<open>
  A stream of three free-format frames of 8 bytes. With the offset 0
  recorded, the header at offset 8 sets the inferred length to 8 and sends
  the loop back to offset 0; the header at offset 0 is then given length 8.
\<close>

theorem mp3_free_format_round_witness:
  "mp3_head_data
     (stream_tf (concat (replicate 3 [0xFF, 0xF3, 0x04, 0, 0, 0, 0, 0])) True) 0
     \<lparr>s_buf = concat (replicate 2 [0xFF, 0xF3, 0x04, 0, 0, 0, 0, 0]), s_data = 0,
      s_data_end = 16, s_size = 16, s_skipped = 0, s_last_free_offset = - 1,
      s_last_free_framelen = - 1\<rparr>
     \<lparr>head_data = True, layer = 0, bitrate = 0, samplerate = 0, channels = 0, found = 0,
      offset = 8, last_free_offset = 0, last_free_framelen = - 1\<rparr>
     = Some (concat (replicate 2 [0xFF, 0xF3, 0x04, 0, 0, 0, 0, 0]), 8) \<and>
   GST_READ_UINT32_BE (concat (replicate 2 [0xFF, 0xF3, 0x04, 0, 0, 0, 0, 0])) 8 = Inr 0xFFF30400 \<and>
   mp3_type_frame_length_from_header 0xFFF30400 (- 1) = (0, None, True) \<and>
   mp3_header_round
     (stream_tf (concat (replicate 3 [0xFF, 0xF3, 0x04, 0, 0, 0, 0, 0])) True) 0
     \<lparr>s_buf = concat (replicate 2 [0xFF, 0xF3, 0x04, 0, 0, 0, 0, 0]), s_data = 0,
      s_data_end = 16, s_size = 16, s_skipped = 0, s_last_free_offset = - 1,
      s_last_free_framelen = - 1\<rparr>
     \<lparr>head_data = True, layer = 0, bitrate = 0, samplerate = 0, channels = 0, found = 0,
      offset = 8, last_free_offset = 0, last_free_framelen = - 1\<rparr>
     = Inr (Next \<lparr>head_data = True, layer = 0, bitrate = 0, samplerate = 0, channels = 0,
                   found = 0, offset = 0, last_free_offset = 0, last_free_framelen = 8\<rparr>)"
proof -
  let ?tf = "stream_tf (concat (replicate 3 [0xFF, 0xF3, 0x04, 0, 0, 0, 0, 0])) True"
  let ?s = "\<lparr>s_buf = concat (replicate 2 [0xFF, 0xF3, 0x04, 0, 0, 0, 0, 0]), s_data = 0,
      s_data_end = 16, s_size = 16, s_skipped = 0, s_last_free_offset = - 1,
      s_last_free_framelen = - 1\<rparr>"
  let ?c = "\<lparr>head_data = True, layer = 0, bitrate = 0, samplerate = 0, channels = 0, found = 0,
      offset = 8, last_free_offset = 0, last_free_framelen = - 1\<rparr>"
  have a: "mp3_head_data ?tf 0 ?s ?c
             = Some (concat (replicate 2 [0xFF, 0xF3, 0x04, 0, 0, 0, 0, 0]), 8)"
    by code_simp
  have b: "GST_READ_UINT32_BE (concat (replicate 2 [0xFF, 0xF3, 0x04, 0, 0, 0, 0, 0])) 8
             = Inr 0xFFF30400"
    by code_simp
  have c: "mp3_type_frame_length_from_header 0xFFF30400 (- 1) = (0, None, True)"
    by code_simp
  show ?thesis
    using mp3_free_format_round [OF a b] a b c
    by (simp add: s32_def u64_def)
qed

text \<open>
  The first free-format header ends the chain. The stream is one
  fixed-bitrate frame of 24 bytes followed by three free-format frames of 8
  bytes. The header loop started at offset 0 counts the first frame and is
  left at the free-format header at offset 24, whose offset it records; with
  one header found, no guess is made from that chain. The guess the scan
  does make starts at the second free-format header, 32 bytes into the
  stream.
\<close>

theorem mp3_first_free_header_ends_chain:
  "mp3_header_loop
     (stream_tf (([0xFF, 0xF3, 0x14, 0x00] @ replicate 20 0) @
                 concat (replicate 3 [0xFF, 0xF3, 0x04, 0, 0, 0, 0, 0])) True) 0
     \<lparr>s_buf = ([0xFF, 0xF3, 0x14, 0x00] @ replicate 20 0) @ [0xFF, 0xF3, 0x04, 0, 0, 0, 0, 0],
      s_data = 0, s_data_end = 32, s_size = 32, s_skipped = 0, s_last_free_offset = - 1,
      s_last_free_framelen = - 1\<rparr>
     \<lparr>head_data = False, layer = 0, bitrate = 0, samplerate = 0, channels = 0, found = 0,
      offset = 0, last_free_offset = - 1, last_free_framelen = - 1\<rparr>
   = Inr \<lparr>head_data = True, layer = 3, bitrate = 8, samplerate = 24000, channels = 2,
           found = 1, offset = 24, last_free_offset = 24, last_free_framelen = - 1\<rparr> \<and>
   mp3_guess
     (stream_tf (([0xFF, 0xF3, 0x14, 0x00] @ replicate 20 0) @
                 concat (replicate 3 [0xFF, 0xF3, 0x04, 0, 0, 0, 0, 0])) True) 0
   = Inr (Some (3, 32, 3))"
  by code_simp

subsection \<open>The probability of a guess\<close>

lemma mp3_header_round_found:
  assumes "mp3_header_round tf so s c = Inr r" and "r = Break c' \<or> r = Next c'"
  shows "found c \<le> found c' \<and> found c' \<le> found c + 1"
  using assms
  by (auto simp: mp3_header_round_def Let_def split: option.splits sum.splits prod.splits if_splits)

lemma mp3_header_loop_found:
  "mp3_header_loop tf so s c = Inr c' \<Longrightarrow> 0 \<le> found c \<Longrightarrow> found c \<le> 5 \<Longrightarrow>
     0 \<le> found c' \<and> found c' \<le> 5"
proof (induction tf so s c rule: mp3_header_loop.induct)
  case (1 tf so s c)
  show ?case
  proof (cases "found c < GST_MP3_TYPEFIND_TRY_HEADERS")
    case False
    with "1.prems" show ?thesis by (simp add: mp3_header_loop.simps [of tf so s c])
  next
    case True
    note lt = True
    show ?thesis
    proof (cases "mp3_header_round tf so s c")
      case (Inl e)
      with lt "1.prems" show ?thesis by (simp add: mp3_header_loop.simps [of tf so s c])
    next
      case (Inr r)
      show ?thesis
      proof (cases r)
        case (Break c1)
        with Inr lt "1.prems" have "c' = c1" by (simp add: mp3_header_loop.simps [of tf so s c])
        with mp3_header_round_found [OF Inr, of c1] Break lt "1.prems" show ?thesis
          by (simp add: GST_MP3_TYPEFIND_TRY_HEADERS_def)
      next
        case (Next c1)
        with Inr lt "1.prems" have l: "mp3_header_loop tf so s c1 = Inr c'"
          by (simp add: mp3_header_loop.simps [of tf so s c])
        have b: "0 \<le> found c1" "found c1 \<le> 5"
          using mp3_header_round_found [OF Inr, of c1] Next lt "1.prems"
          by (simp_all add: GST_MP3_TYPEFIND_TRY_HEADERS_def)
        from "1.IH" [OF lt Inr Next l b] show ?thesis .
      qed
    qed
  qed
qed

lemma mp3_refill_skipped: "mp3_refill tf so s = Some s' \<Longrightarrow> s_skipped s' = s_skipped s"
  by (auto simp: mp3_refill_def split: if_splits prod.splits option.splits)

lemma mp3_sync_loop_guess:
  "mp3_sync_loop tf so s = Inr (Some (s', c')) \<Longrightarrow> 0 \<le> s_skipped s \<Longrightarrow>
     0 \<le> s_skipped s' \<and> s_skipped s' < 10000 \<and> 2 \<le> found c' \<and> found c' \<le> 5"
proof (induction tf so s rule: mp3_sync_loop.induct)
  case (1 tf so s)
  from "1.prems"(1) have lt: "s_skipped s < GST_MP3_TYPEFIND_TRY_SYNC"
    by (auto simp: mp3_sync_loop.simps [of tf so s] split: if_splits)
  from "1.prems"(1) lt obtain s1 where r: "mp3_refill tf so s = Some s1"
    by (auto simp: mp3_sync_loop.simps [of tf so s] split: option.splits)
  from "1.prems"(1) lt r obtain b where b: "rd (s_buf s1) (s_data s1) = Inr b"
    by (auto simp: mp3_sync_loop.simps [of tf so s] split: sum.splits)
  have sk: "s_skipped s1 = s_skipped s" by (rule mp3_refill_skipped [OF r])
  have adv: "0 \<le> s_skipped (mp3_advance x)" if "s_skipped x = s_skipped s" for x
    using that "1.prems"(2) by (simp add: mp3_advance_def u64_def)
  show ?case
  proof (cases "b = 0xFF")
    case False
    with "1.prems"(1) lt r b have "mp3_sync_loop tf so (mp3_advance s1) = Inr (Some (s', c'))"
      by (simp add: mp3_sync_loop.simps [of tf so s])
    from "1.IH"(2) [OF lt r b False this adv [OF sk]] show ?thesis .
  next
    case True
    let ?c0 = "\<lparr>head_data = False, layer = 0, bitrate = 0, samplerate = 0,
                        channels = 0, found = 0, offset = s_skipped s1,
                        last_free_offset = s_last_free_offset s1,
                        last_free_framelen = s_last_free_framelen s1\<rparr>"
    from "1.prems"(1) lt r b True obtain c where c: "mp3_header_loop tf so s1 ?c0 = Inr c"
      by (auto simp: mp3_sync_loop.simps [of tf so s] split: sum.splits)
    have fc: "0 \<le> found c \<and> found c \<le> 5"
      using mp3_header_loop_found [OF c] by simp
    show ?thesis
    proof (cases "found c = GST_MP3_TYPEFIND_TRY_HEADERS \<or>
                       (found c \<ge> GST_MP3_TYPEFIND_MIN_HEADERS \<and> \<not> head_data c)")
      case True
      with "1.prems"(1) lt r b \<open>b = 0xFF\<close> c have "s' = s1" "c' = c"
        by (simp_all add: mp3_sync_loop.simps [of tf so s])
      with True fc sk lt "1.prems"(2) show ?thesis
        by (auto simp: GST_MP3_TYPEFIND_TRY_HEADERS_def GST_MP3_TYPEFIND_MIN_HEADERS_def
            GST_MP3_TYPEFIND_TRY_SYNC_def GST_TYPE_FIND_MAXIMUM_def)
    next
      case False
      let ?s2 = "mp3_advance (s1\<lparr>s_last_free_offset := last_free_offset c,
                                            s_last_free_framelen := last_free_framelen c\<rparr>)"
      from False "1.prems"(1) lt r b \<open>b = 0xFF\<close> c
      have l: "mp3_sync_loop tf so ?s2 = Inr (Some (s', c'))"
        by (auto simp add: mp3_sync_loop.simps [of tf so s] split: if_splits)
      have "0 \<le> s_skipped ?s2" by (rule adv) (simp add: sk)
      from "1.IH"(1) [OF lt r b \<open>b = 0xFF\<close> c False l this] show ?thesis .
    qed
  qed
qed

lemma probability_exact:
  assumes "0 \<le> f" "f \<le> 5" "0 \<le> k" "k < 10000"
  defines "q \<equiv> f * 100 * (10000 - k) div 5 div 10000"
  shows "u32 (u64 (u32 (f * 100) * u64 (10000 - k)) div 5 div 10000) = q"
    and "0 \<le> q" and "q \<le> 100"
proof -
  have a: "u32 (f * 100) = f * 100" using assms(1,2) by (simp add: u32_def)
  have b: "u64 (10000 - k) = 10000 - k" using assms(3,4) by (simp add: u64_def)
  have "f * 100 * (10000 - k) \<le> 500 * 10000"
    using assms(1-4) by (intro mult_mono) auto
  then have c: "f * 100 * (10000 - k) \<le> 5000000" by simp
  have d: "0 \<le> f * 100 * (10000 - k)" using assms(1-4) by simp
  then have e: "u64 (f * 100 * (10000 - k)) = f * 100 * (10000 - k)"
    using c by (simp add: u64_def)
  show q0: "0 \<le> q"
    unfolding q_def using d by (simp add: pos_imp_zdiv_nonneg_iff)
  show q1: "q \<le> 100"
  proof -
    have "f * 100 * (10000 - k) div 5 \<le> 5000000 div 5"
      using c by (intro zdiv_mono1) auto
    then have "f * 100 * (10000 - k) div 5 div 10000 \<le> 1000000 div 10000"
      by (intro zdiv_mono1) auto
    then show ?thesis unfolding q_def by simp
  qed
  have "u64 (u32 (f * 100) * u64 (10000 - k)) div 5 div 10000 = q"
    unfolding q_def by (simp only: a b e)
  moreover have "u32 q = q"
    using q0 q1 by (simp add: u32_def)
  ultimately show "u32 (u64 (u32 (f * 100) * u64 (10000 - k)) div 5 div 10000) = q"
    by simp
qed

lemma memcmp_3:
  "memcmp [a, b, c] 0 [x, y, z] 3 = Inr r \<Longrightarrow> (r = 0 \<longleftrightarrow> a = x \<and> b = y \<and> c = z)"
  by (auto simp: rd_def word_uint_eq_iff split: if_splits)

lemma memcmp_tag:
  assumes "length tag = 3"
  shows "memcmp tag 0 (bytes_of ''TAG'') 3 = Inr r \<Longrightarrow> (r = 0 \<longleftrightarrow> tag = bytes_of ''TAG'')"
    and "\<exists>r. memcmp tag 0 (bytes_of ''TAG'') 3 = Inr r"
proof -
  from assms obtain a b c where t: "tag = [a, b, c]"
    by (metis (no_types, opaque_lifting) length_0_conv length_Suc_conv numeral_3_eq_3)
  obtain x y z where l: "bytes_of ''TAG'' = [x, y, z]"
    by (simp add: bytes_of_def)
  show "memcmp tag 0 (bytes_of ''TAG'') 3 = Inr r \<Longrightarrow> (r = 0 \<longleftrightarrow> tag = bytes_of ''TAG'')"
    unfolding t l using memcmp_3 [of a b c x y z r] by simp
  show "\<exists>r. memcmp tag 0 (bytes_of ''TAG'') 3 = Inr r"
    unfolding t l by (simp add: rd_def)
qed

lemma mp3_probability_value:
  assumes "0 \<le> f" "f \<le> 5" "0 \<le> k" "k < 10000"
  shows "mp3_probability tf start_off f k =
           Inr (case gst_type_find_peek tf (- 128) 3 of
                  None \<Rightarrow> claimed_probability f k start_off * 4 div 5
                | Some tag \<Rightarrow> if tag = bytes_of ''TAG'' then 0
                              else claimed_probability f k start_off)"
    and "0 \<le> claimed_probability f k start_off"
    and "claimed_probability f k start_off \<le> 100"
proof -
  define q where "q = f * 100 * (10000 - k) div 5 div 10000"
  note ex = probability_exact [OF assms, folded q_def]
  define q' where "q' = (if q < 1 then 1 else q)"
  have cp: "claimed_probability f k start_off = (if start_off > 0 then q' div 2 else q')"
    by (simp add: claimed_probability_def Let_def GST_TYPE_FIND_MAXIMUM_def q_def q'_def
        GST_MP3_TYPEFIND_TRY_SYNC_def GST_MP3_TYPEFIND_TRY_HEADERS_def GST_TYPE_FIND_MINIMUM_def)
  have q'b: "1 \<le> q'" "q' \<le> 100" using ex(2,3) by (auto simp: q'_def)
  have h: "0 \<le> q' div 2" "q' div 2 \<le> 100"
    using q'b by presburger+
  show c0: "0 \<le> claimed_probability f k start_off"
    using q'b h by (simp add: cp)
  show c1: "claimed_probability f k start_off \<le> 100"
    using q'b h by (simp add: cp)
  have w: "u32 (claimed_probability f k start_off * 4) = claimed_probability f k start_off * 4"
    using c0 c1 by (simp add: u32_def)
  have pre: "(let probability =
            u32 (u64 (u32 (f * GST_TYPE_FIND_MAXIMUM) * u64 (GST_MP3_TYPEFIND_TRY_SYNC - k))
                   div GST_MP3_TYPEFIND_TRY_HEADERS div GST_MP3_TYPEFIND_TRY_SYNC);
          probability = (if probability < GST_TYPE_FIND_MINIMUM then GST_TYPE_FIND_MINIMUM
                         else probability);
          probability = (if start_off > 0 then probability div 2 else probability)
      in g probability) = g (claimed_probability f k start_off)" for g :: "int \<Rightarrow> 'b"
    using ex(1)
    by (simp add: cp q'_def Let_def GST_TYPE_FIND_MAXIMUM_def
        GST_MP3_TYPEFIND_TRY_SYNC_def GST_MP3_TYPEFIND_TRY_HEADERS_def GST_TYPE_FIND_MINIMUM_def)
  have mp: "mp3_probability tf start_off f k =
      (case gst_type_find_peek tf (- 128) 3 of
           None \<Rightarrow> Inr (u32 (claimed_probability f k start_off * 4) div 5)
         | Some tag \<Rightarrow>
             (case memcmp tag 0 (bytes_of ''TAG'') 3 of
                Inl e \<Rightarrow> Inl e
              | Inr r \<Rightarrow> if r = 0 then Inr 0 else Inr (claimed_probability f k start_off)))"
    unfolding mp3_probability_def by (rule pre)
  show "mp3_probability tf start_off f k =
           Inr (case gst_type_find_peek tf (- 128) 3 of
                  None \<Rightarrow> claimed_probability f k start_off * 4 div 5
                | Some tag \<Rightarrow> if tag = bytes_of ''TAG'' then 0
                              else claimed_probability f k start_off)"
  proof (cases "gst_type_find_peek tf (- 128) 3")
    case None
    with w show ?thesis by (simp add: mp)
  next
    case (Some tag)
    then have len: "length tag = 3"
      using gst_type_find_peek_length [OF Some] by (simp add: u32_def)
    from memcmp_tag(2) [OF len] obtain r where r: "memcmp tag 0 (bytes_of ''TAG'') 3 = Inr r" ..
    from memcmp_tag(1) [OF len r] have rz: "r = 0 \<longleftrightarrow> tag = bytes_of ''TAG''" .
    show ?thesis
      using Some r rz by (simp add: mp)
  qed
qed

lemma mp3_guess_probability:
  assumes "mp3_guess tf start_off = Inr (Some (fnd, skp, lay))"
  shows "2 \<le> fnd \<and> fnd \<le> 5 \<and> 0 \<le> skp \<and> skp < 10000 \<and>
         (let p = (case gst_type_find_peek tf (- 128) 3 of
                     None \<Rightarrow> claimed_probability fnd skp start_off * 4 div 5
                   | Some tag \<Rightarrow> if tag = bytes_of ''TAG'' then 0
                                 else claimed_probability fnd skp start_off)
          in mp3_type_find_at_offset tf start_off = Inr (if p > 0 then lay else 0, p) \<and>
             0 \<le> p \<and> p \<le> GST_TYPE_FIND_MAXIMUM)"
proof -
  from assms obtain s c where
    l: "mp3_sync_loop tf start_off mp3_sync_init = Inr (Some (s, c))"
    and e: "fnd = found c" "skp = s_skipped s" "lay = layer c"
    by (auto simp: mp3_guess_def split: sum.splits option.splits)
  have b: "0 \<le> skp \<and> skp < 10000 \<and> 2 \<le> fnd \<and> fnd \<le> 5"
    using mp3_sync_loop_guess [OF l] by (simp add: e mp3_sync_init_def)
  then have b': "0 \<le> fnd" "fnd \<le> 5" "0 \<le> skp" "skp < 10000" by simp_all
  note pv = mp3_probability_value(1) [OF b', of tf start_off]
    mp3_probability_value(2,3) [OF b', of start_off]
  have "mp3_type_find_at_offset tf start_off =
          (case mp3_probability tf start_off fnd skp of
             Inl e \<Rightarrow> Inl e
           | Inr probability \<Rightarrow> Inr (if probability > 0 then lay else 0, probability))"
    unfolding e by (simp add: mp3_type_find_at_offset_def l)
  with pv b show ?thesis
    by (auto simp: Let_def GST_TYPE_FIND_MAXIMUM_def split: option.splits)
qed

text \<open>
  Claim C3. Whenever the scan makes a guess, with \<open>fnd\<close> headers found after
  \<open>skp\<close> skipped bytes: \<open>fnd\<close> is between 2 and 5, \<open>skp\<close> is below 10000, and the
  reported probability is the specified one (\<open>claimed_probability\<close>, in exact
  integer arithmetic) after one more step: times 4/5 when the 3 bytes at 128
  from the end cannot be peeked, 0 when they are \<open>TAG\<close>, unchanged otherwise.
  It lies between 0 and \<open>MAXIMUM\<close>, and the layer is reported only when it is
  positive.
\<close>

theorem mp3_reported_probability:
  assumes "mp3_guess tf start_off = Inr (Some (fnd, skp, lay))"
  shows "2 \<le> fnd \<and> fnd \<le> 5 \<and> 0 \<le> skp \<and> skp < 10000 \<and>
         (let p = (case gst_type_find_peek tf (- 128) 3 of
                     None \<Rightarrow> claimed_probability fnd skp start_off * 4 div 5
                   | Some tag \<Rightarrow> if tag = bytes_of ''TAG'' then 0
                                 else claimed_probability fnd skp start_off)
          in mp3_type_find_at_offset tf start_off = Inr (if p > 0 then lay else 0, p) \<and>
             0 \<le> p \<and> p \<le> GST_TYPE_FIND_MAXIMUM)"
  using assms by (rule mp3_guess_probability)

theorem mp3_reported_probability_witness:
  "mp3_guess (stream_tf (concat (replicate 6 ([0xFF, 0xF3, 0x14, 0x00] @ replicate 20 0))) True) 0
     = Inr (Some (5, 0, 3)) \<and>
   gst_type_find_peek
     (stream_tf (concat (replicate 6 ([0xFF, 0xF3, 0x14, 0x00] @ replicate 20 0))) True) (- 128) 3
     = Some [0, 0, 0] \<and>
   claimed_probability 5 0 0 = 100 \<and>
   mp3_type_find_at_offset
     (stream_tf (concat (replicate 6 ([0xFF, 0xF3, 0x14, 0x00] @ replicate 20 0))) True) 0
     = Inr (3, 100)"
proof -
  let ?tf = "stream_tf (concat (replicate 6 ([0xFF, 0xF3, 0x14, 0x00] @ replicate 20 0))) True"
  have g: "mp3_guess ?tf 0 = Inr (Some (5, 0, 3))"
    by code_simp
  have t: "gst_type_find_peek ?tf (- 128) 3 = Some [0, 0, 0]"
    by code_simp
  have c: "claimed_probability 5 0 0 = 100"
    by code_simp
  show ?thesis
    using mp3_reported_probability [OF g] g t c
    by (simp add: bytes_of_def)
qed

text \<open>
  The reported probability is not the specified one when the length of the
  stream is not known: five headers found with nothing skipped, scan started
  at offset 0, and the probability reported is 80, not 100.
\<close>

theorem mp3_reported_probability_counterexample:
  "mp3_guess (stream_tf (concat (replicate 6 ([0xFF, 0xF3, 0x14, 0x00] @ replicate 20 0))) False) 0
     = Inr (Some (5, 0, 3)) \<and>
   claimed_probability 5 0 0 = 100 \<and>
   mp3_type_find_at_offset
     (stream_tf (concat (replicate 6 ([0xFF, 0xF3, 0x14, 0x00] @ replicate 20 0))) False) 0
     = Inr (3, 80)"
  by code_simp

subsection \<open>The trailing tag\<close>







subsection \<open>The whole-stream policy\<close>

text \<open>
  Claim C5. With \<open>(lay, prob)\<close> the result of the scan at offset 0: when the
  length is 0 or unknown, that result is suggested if \<open>prob\<close> is not 0, and
  nothing otherwise; when the length is known and \<open>prob\<close> is at least
  \<open>LIKELY\<close>, that result is suggested and the midpoint is not scanned;
  otherwise the scan is run again at half the length, and if it succeeds
  there (\<open>mid_prob > 0\<close>): its result alone is suggested when \<open>prob\<close> is 0,
  nothing is suggested when the layers differ, and the layer with the integer
  average of the two probabilities is suggested when they agree.
\<close>

theorem mp3_whole_stream_policy:
  assumes "mp3_type_find_at_offset tf 0 = Inr (lay, prob)"
  shows "(let len = gst_type_find_get_length tf in
          (len = 0 \<or> len = u64 (- 1) \<longrightarrow>
             mp3_type_find tf = (if prob \<noteq> 0 then Inr (mp3_suggest lay prob) else Inr None)) \<and>
          (len \<noteq> 0 \<and> len \<noteq> u64 (- 1) \<and> prob \<ge> GST_TYPE_FIND_LIKELY \<longrightarrow>
             mp3_type_find tf = Inr (mp3_suggest lay prob)) \<and>
          (\<forall>mid_layer mid_prob.
             len \<noteq> 0 \<and> len \<noteq> u64 (- 1) \<and> prob < GST_TYPE_FIND_LIKELY \<and>
             mp3_type_find_at_offset tf (len div 2) = Inr (mid_layer, mid_prob) \<and> mid_prob > 0 \<longrightarrow>
             mp3_type_find tf =
               (if prob = 0 then Inr (mp3_suggest mid_layer mid_prob)
                else if lay \<noteq> mid_layer then Inr None
                else Inr (mp3_suggest lay ((prob + mid_prob) div 2)))))"
  using assms by (simp add: mp3_type_find_def Let_def)

text \<open>
  Four frames of 24 bytes, length known: the scan finds 4 headers at offset
  0 (probability 64) and 2 at the midpoint (probability 16), both of layer 3;
  the suggestion is the average, 40.
\<close>

theorem mp3_whole_stream_policy_witness:
  "mp3_type_find_at_offset (stream_tf (concat (replicate 4 ([0xFF, 0xF3, 0x14, 0x00] @ replicate 20 0))) True) 0 = Inr (3, 64) \<and>
   gst_type_find_get_length (stream_tf (concat (replicate 4 ([0xFF, 0xF3, 0x14, 0x00] @ replicate 20 0))) True) = 96 \<and>
   mp3_type_find_at_offset (stream_tf (concat (replicate 4 ([0xFF, 0xF3, 0x14, 0x00] @ replicate 20 0))) True) (96 div 2) = Inr (3, 16) \<and>
   mp3_type_find (stream_tf (concat (replicate 4 ([0xFF, 0xF3, 0x14, 0x00] @ replicate 20 0))) True) = Inr (mp3_suggest 3 40)"
proof -
  let ?tf = "stream_tf (concat (replicate 4 ([0xFF, 0xF3, 0x14, 0x00] @ replicate 20 0))) True"
  have a: "mp3_type_find_at_offset ?tf 0 = Inr (3, 64)"
    by code_simp
  have l: "gst_type_find_get_length ?tf = 96"
    by code_simp
  have m: "mp3_type_find_at_offset ?tf (96 div 2) = Inr (3, 16)"
    by code_simp
  from mp3_whole_stream_policy [OF a] l m
  have "mp3_type_find ?tf = Inr (mp3_suggest 3 ((64 + 16) div 2))"
    by (simp add: Let_def u64_def GST_TYPE_FIND_LIKELY_def)
  with a l m show ?thesis by simp
qed

text \<open>
  Six frames of 24 bytes, length known: the scan succeeds at offset 0
  (probability 100) and would succeed at the midpoint (probability 30, same
  layer), but the suggestion is 100, not the average 65.
\<close>

theorem mp3_whole_stream_policy_counterexample:
  "gst_type_find_get_length (stream_tf (concat (replicate 6 ([0xFF, 0xF3, 0x14, 0x00] @ replicate 20 0))) True) = 144 \<and>
   mp3_type_find_at_offset (stream_tf (concat (replicate 6 ([0xFF, 0xF3, 0x14, 0x00] @ replicate 20 0))) True) 0 = Inr (3, 100) \<and>
   mp3_type_find_at_offset (stream_tf (concat (replicate 6 ([0xFF, 0xF3, 0x14, 0x00] @ replicate 20 0))) True) (144 div 2) = Inr (3, 30) \<and>
   mp3_type_find (stream_tf (concat (replicate 6 ([0xFF, 0xF3, 0x14, 0x00] @ replicate 20 0))) True) = Inr (mp3_suggest 3 100)"
  by code_simp

subsection \<open>A stream of consecutive frames\<close>

lemma be32_top_bits: "n < 8 \<Longrightarrow> bit (be32 b0 b1 b2 b3) (24 + n) = bit b0 n"
  by (auto simp add: be32_def bit_simps dest: bit_imp_le_length)

lemma be32_sync_byte:
  assumes "be32 b0 b1 b2 b3 AND 0xffe00000 = 0xffe00000"
  shows "b0 = 0xFF"
proof -
  have m: "(0xffe00000 :: 32 word) = push_bit 21 (mask 11)"
    by (simp add: mask_eq_exp_minus_1)
  have "bit b0 n" if "n < 8" for n
  proof -
    have "bit (be32 b0 b1 b2 b3 AND 0xffe00000) (24 + n) = bit (0xffe00000 :: 32 word) (24 + n)"
      using assms by simp
    moreover have "bit (0xffe00000 :: 32 word) (24 + n)"
      unfolding m using that by (simp add: bit_simps)
    ultimately have "bit (be32 b0 b1 b2 b3) (24 + n)"
      by (simp add: bit_and_iff)
    then show ?thesis using that by (simp add: be32_top_bits)
  qed
  then have "b0 = - 1"
    by (intro bit_word_eqI) (simp add: bit_simps)
  then show ?thesis by simp
qed

lemma header_valid:
  assumes "mp3_type_frame_length_from_header h pff = (len, hdr, fr)" and "len \<noteq> 0"
  shows "h AND 0xffe00000 = 0xffe00000 \<and> hdr \<noteq> None \<and> \<not> fr"
  using assms
  by (auto simp: mp3_type_frame_length_from_header_def Let_def split: if_splits prod.splits)

lemma lt16: "(k::nat) < 16 \<Longrightarrow> k = 0 \<or> k = 1 \<or> k = 2 \<or> k = 3 \<or> k = 4 \<or> k = 5 \<or> k = 6 \<or> k = 7 \<or>
   k = 8 \<or> k = 9 \<or> k = 10 \<or> k = 11 \<or> k = 12 \<or> k = 13 \<or> k = 14 \<or> k = 15"
  by arith

lemma lt3: "(k::nat) < 3 \<Longrightarrow> k = 0 \<or> k = 1 \<or> k = 2"
  by arith

lemma bitrates_bound:
  assumes "i < 2" "j < 3" "k < 16"
  shows "0 \<le> mp3types_bitrates ! i ! j ! k \<and> mp3types_bitrates ! i ! j ! k \<le> 448"
proof -
  from assms(1) have "i = 0 \<or> i = 1" by arith
  with lt3 [OF assms(2)] lt16 [OF assms(3)] show ?thesis
    by (elim disjE) (simp_all add: mp3types_bitrates_def)
qed

lemma freqs_bound:
  assumes "i < 3" "j < 3"
  shows "8000 \<le> mp3types_freqs ! i ! j"
  using lt3 [OF assms(1)] lt3 [OF assms(2)]
  by (elim disjE) (simp_all add: mp3types_freqs_def)

lemma uint_and_le: "0 \<le> uint (w AND m) \<and> uint (w AND m) \<le> uint (m :: 32 word)"
  using word_and_le1 [of w m] by (simp add: word_le_def)

lemma div_le_bound:
  fixes a s :: int
  assumes "0 \<le> a" "a \<le> A" "8000 \<le> s"
  shows "0 \<le> a div s \<and> a div s \<le> A div 8000"
proof -
  have "a div s \<le> a div 8000"
    using assms by (intro zdiv_mono2) auto
  also have "\<dots> \<le> A div 8000"
    using assms by (intro zdiv_mono1) auto
  finally have "a div s \<le> A div 8000" .
  moreover have "0 \<le> a div s"
    using assms by (simp add: pos_imp_zdiv_nonneg_iff)
  ultimately show ?thesis by simp
qed

lemma header_length_bound:
  assumes "mp3_type_frame_length_from_header h (- 1) = (len, hdr, fr)"
  shows "0 \<le> len \<and> len \<le> 10000"
proof -
  define ver where "ver = uint (drop_bit 19 h AND 3)"
  define lay where "lay = 4 - uint (drop_bit 17 h AND 3)"
  define bi where "bi = uint (drop_bit 12 h AND 0xF)"
  define si where "si = uint (drop_bit 10 h AND 3)"
  define pad where "pad = uint (drop_bit 9 h AND 1)"
  define S where "S = mp3types_freqs ! nat (if ver > 0 then ver - 1 else 0) ! nat si"
  define B where "B = mp3types_bitrates ! (if ver = 3 then 0 else 1) ! nat (lay - 1) ! nat bi"
  have r: "0 \<le> ver" "ver \<le> 3" "1 \<le> lay" "lay \<le> 4" "0 \<le> bi" "bi \<le> 15"
    "0 \<le> si" "si \<le> 3" "0 \<le> pad" "pad \<le> 1"
    using uint_and_le [of "drop_bit 19 h" 3] uint_and_le [of "drop_bit 17 h" 3]
      uint_and_le [of "drop_bit 12 h" 15] uint_and_le [of "drop_bit 10 h" 3]
      uint_and_le [of "drop_bit 9 h" 1]
    by (simp_all add: ver_def lay_def bi_def si_def pad_def)
  have eq: "len =
      (if h AND 0xffe00000 \<noteq> 0xffe00000 \<or> si = 3 \<or> bi = 15 \<or> bi = 0 \<or> lay = 4 \<or> ver = 1
       then 0
       else if lay = 1 then (12000 * B div S + pad) * 4
       else pad + (if lay = 3 \<and> ver \<noteq> 3 then 72000 else 144000) * B div S)"
    using assms
    by (auto simp: mp3_type_frame_length_from_header_def Let_def drop_bit_drop_bit
        ver_def lay_def bi_def si_def pad_def S_def B_def split: if_splits prod.splits)
  show ?thesis
  proof (cases "h AND 0xffe00000 \<noteq> 0xffe00000 \<or> si = 3 \<or> bi = 15 \<or> bi = 0 \<or> lay = 4 \<or> ver = 1")
    case True
    with eq show ?thesis by simp
  next
    case False
    with r have "nat (if ver > 0 then ver - 1 else 0) < 3" "nat si < 3"
      "(if ver = 3 then 0 else 1) < (2::nat)" "nat (lay - 1) < 3" "nat bi < 16"
      by auto
    then have S: "8000 \<le> S" and B: "0 \<le> B" "B \<le> 448"
      using freqs_bound bitrates_bound unfolding S_def B_def by blast+
    have b1: "0 \<le> 12000 * B div S \<and> 12000 * B div S \<le> (12000 * 448) div 8000"
      using B S by (intro div_le_bound) auto
    have b2: "0 \<le> 72000 * B div S \<and> 72000 * B div S \<le> (72000 * 448) div 8000"
      using B S by (intro div_le_bound) auto
    have b3: "0 \<le> 144000 * B div S \<and> 144000 * B div S \<le> (144000 * 448) div 8000"
      using B S by (intro div_le_bound) auto
    from False eq r b1 b2 b3 show ?thesis
      by (auto split: if_splits)
  qed
qed


lemma mp3_frameE:
  assumes "mp3_frame g"
  obtains b0 b1 b2 b3 r h where "g = b0 # b1 # b2 # b3 # r"
    and "mp3_type_frame_length_from_header (be32 b0 b1 b2 b3) (- 1) = (int (length g), Some h, False)"
    and "b0 = 0xFF" and "int (length g) \<le> 10000" and "mp3_frame_layer g = put_layer h"
proof -
  from assms obtain b0 b1 b2 b3 r where g: "g = b0 # b1 # b2 # b3 # r"
    by (auto simp: mp3_frame_def split: list.splits)
  obtain len hdr fr where
    h: "mp3_type_frame_length_from_header (be32 b0 b1 b2 b3) (- 1) = (len, hdr, fr)"
    by (cases "mp3_type_frame_length_from_header (be32 b0 b1 b2 b3) (- 1)")
  from assms g h have len: "len = int (length g)"
    by (simp add: mp3_frame_def)
  then have "len \<noteq> 0" using g by simp
  from header_valid [OF h this] obtain hd where
    v: "be32 b0 b1 b2 b3 AND 0xffe00000 = 0xffe00000" "hdr = Some hd" "\<not> fr"
    by auto
  have "mp3_frame_layer g = put_layer hd"
    using g h v by (simp add: mp3_frame_layer_def)
  with g h len v be32_sync_byte [OF v(1)] header_length_bound [OF h] that show thesis
    by simp
qed

lemma read_be32:
  assumes "0 \<le> i" and "drop (nat i) w = b0 # b1 # b2 # b3 # rest"
  shows "GST_READ_UINT32_BE w i = Inr (be32 b0 b1 b2 b3)"
proof -
  have len: "nat i + 4 \<le> length w"
  proof -
    have "length (drop (nat i) w) = 4 + length rest" by (simp add: assms(2))
    then show ?thesis by simp
  qed
  have n: "w ! (nat i + k) = (b0 # b1 # b2 # b3 # rest) ! k" for k
    using len by (simp add: assms(2) [symmetric])
  have r: "rd w (i + int k) = Inr ((b0 # b1 # b2 # b3 # rest) ! k)" if "k < 4" for k
  proof -
    have "nat (i + int k) = nat i + k" using assms(1) by simp
    then show ?thesis using that len assms(1) n [of k] by (simp add: rd_def)
  qed
  from r [of 0] r [of 1] r [of 2] r [of 3] show ?thesis
    by (simp add: GST_READ_UINT32_BE_def)
qed

lemma mp3_header_round_valid:
  assumes "mp3_head_data tf start_off s c = Some (hbuf, hix)"
      and "GST_READ_UINT32_BE hbuf hix = Inr head"
      and "mp3_type_frame_length_from_header head (last_free_framelen c) = (len, Some h, fr)"
      and "len \<noteq> 0"
  shows "mp3_header_round tf start_off s c =
           Inr (Next (c\<lparr>head_data := True, layer := put_layer h, channels := put_channels h,
                        bitrate := put_bitrate h, samplerate := put_samplerate h,
                        found := found c + 1, offset := u64 (offset c + len)\<rparr>))"
  using assms by (simp add: mp3_header_round_def)


lemma mp3_head_data_frame:
  assumes env: "s_buf s = take (nat sz) bs" "s_data s = 0" "s_data_end s = sz" "s_skipped s = 0"
      "sz \<le> int (length bs)"
    and o: "0 \<le> offset c" "offset c \<le> 50000"
    and d: "drop (nat (offset c)) bs = b0 # b1 # b2 # b3 # rest"
  shows "\<exists>hbuf hix. mp3_head_data (stream_tf bs known) 0 s c = Some (hbuf, hix) \<and>
           GST_READ_UINT32_BE hbuf hix = Inr (be32 b0 b1 b2 b3)"
proof -
  let ?o = "offset c"
  have w: "s64 (u64 (?o + 4)) = ?o + 4" "s64 (u64 ?o) = ?o" "u64 ?o = ?o"
    "s64 ?o = ?o" "s64 (?o + 4) = ?o + 4" "u64 (?o + 4) = ?o + 4"
    using o by (simp_all add: s64_def u64_def)
  have len: "nat ?o + 4 \<le> length bs"
  proof -
    have "length (drop (nat ?o) bs) = 4 + length rest" by (simp add: d)
    then show ?thesis by simp
  qed
  show ?thesis
  proof (cases "?o + 4 < sz")
    case True
    then have h: "mp3_head_data (stream_tf bs known) 0 s c = Some (take (nat sz) bs, ?o)"
      using o by (simp add: mp3_head_data_def env w)
    have k4: "4 < nat sz - nat ?o"
      using True o by arith
    have "drop (nat ?o) (take (nat sz) bs) = take (nat sz - nat ?o) (drop (nat ?o) bs)"
      by (simp add: drop_take)
    also have "\<dots> = take (nat sz - nat ?o) (b0 # b1 # b2 # b3 # rest)"
      by (simp add: d)
    finally have "\<exists>rest'. drop (nat ?o) (take (nat sz) bs) = b0 # b1 # b2 # b3 # rest'"
      using k4 by (simp add: take_Cons')
    then obtain rest' where "drop (nat ?o) (take (nat sz) bs) = b0 # b1 # b2 # b3 # rest'" ..
    with o(1) have "GST_READ_UINT32_BE (take (nat sz) bs) ?o = Inr (be32 b0 b1 b2 b3)"
      by (rule read_be32)
    with h show ?thesis by blast
  next
    case False
    have p: "gst_type_find_peek (stream_tf bs known) ?o 4 = Some [b0, b1, b2, b3]"
      using o len by (simp add: stream_peek_in d)
    from False have h: "mp3_head_data (stream_tf bs known) 0 s c = Some ([b0, b1, b2, b3], 0)"
      using o by (simp add: mp3_head_data_def env w p)
    have "GST_READ_UINT32_BE [b0, b1, b2, b3] 0 = Inr (be32 b0 b1 b2 b3)"
      by (rule read_be32) simp_all
    with h show ?thesis by blast
  qed
qed

lemma mp3_header_loop_frames:
  assumes env: "s_buf s = take (nat sz) bs" "s_data s = 0" "s_data_end s = sz" "s_skipped s = 0"
      "sz \<le> int (length bs)"
  shows "list_all mp3_frame gs \<Longrightarrow> length gs \<le> 5 \<Longrightarrow>
         drop (nat (offset c)) bs = concat gs @ rest \<Longrightarrow>
         found c = 5 - int (length gs) \<Longrightarrow> 0 \<le> offset c \<Longrightarrow>
         offset c \<le> found c * 10000 \<Longrightarrow> last_free_framelen c = - 1 \<Longrightarrow>
         \<exists>c'. mp3_header_loop (stream_tf bs known) 0 s c = Inr c' \<and> found c' = 5 \<and>
              (gs = [] \<longrightarrow> c' = c) \<and>
              (gs \<noteq> [] \<longrightarrow> layer c' = mp3_frame_layer (last gs) \<and> head_data c')"
proof (induction gs arbitrary: c)
  case Nil
  then show ?case
    by (simp add: mp3_header_loop.simps [of _ _ _ c] GST_MP3_TYPEFIND_TRY_HEADERS_def)
next
  case (Cons g gs)
  let ?tf = "stream_tf bs known"
  from Cons.prems(1) have fg: "mp3_frame g" and fgs: "list_all mp3_frame gs" by simp_all
  from fg obtain b0 b1 b2 b3 r h where
    g: "g = b0 # b1 # b2 # b3 # r"
    and hdr: "mp3_type_frame_length_from_header (be32 b0 b1 b2 b3) (- 1)
               = (int (length g), Some h, False)"
    and lenb: "int (length g) \<le> 10000" and lay: "mp3_frame_layer g = put_layer h"
    by (rule mp3_frameE)
  have fc: "0 \<le> found c" "found c < 5"
    using Cons.prems(2,4) by simp_all
  have ob: "offset c \<le> 50000"
    using Cons.prems(6) fc by simp
  have d: "drop (nat (offset c)) bs = b0 # b1 # b2 # b3 # (r @ concat gs @ rest)"
    using Cons.prems(3) g by simp
  from mp3_head_data_frame [OF env Cons.prems(5) ob d, of known]
  obtain hbuf hix where
    hd: "mp3_head_data ?tf 0 s c = Some (hbuf, hix)"
    and rd: "GST_READ_UINT32_BE hbuf hix = Inr (be32 b0 b1 b2 b3)"
    by blast
  let ?c1 = "c\<lparr>head_data := True, layer := put_layer h, channels := put_channels h,
                bitrate := put_bitrate h, samplerate := put_samplerate h,
                found := found c + 1, offset := u64 (offset c + int (length g))\<rparr>"
  have hdr': "mp3_type_frame_length_from_header (be32 b0 b1 b2 b3) (last_free_framelen c)
               = (int (length g), Some h, False)"
    using hdr by (simp add: Cons.prems(7))
  have "int (length g) \<noteq> 0" using g by simp
  from mp3_header_round_valid [OF hd rd hdr' this]
  have round: "mp3_header_round ?tf 0 s c = Inr (Next ?c1)" .
  have step: "mp3_header_loop ?tf 0 s c = mp3_header_loop ?tf 0 s ?c1"
    using fc by (simp add: mp3_header_loop.simps [of ?tf 0 s c] round
        GST_MP3_TYPEFIND_TRY_HEADERS_def)
  have o1: "offset ?c1 = offset c + int (length g)"
    using Cons.prems(5) ob lenb by (simp add: u64_def)
  have d1: "drop (nat (offset ?c1)) bs = concat gs @ rest"
  proof -
    have "nat (offset c + int (length g)) = length g + nat (offset c)"
      using Cons.prems(5) by simp
    then have "drop (nat (offset ?c1)) bs = drop (length g) (drop (nat (offset c)) bs)"
      by (simp only: o1 drop_drop)
    also have "\<dots> = concat gs @ rest"
      by (simp add: Cons.prems(3))
    finally show ?thesis .
  qed
  have "\<exists>c'. mp3_header_loop ?tf 0 s ?c1 = Inr c' \<and> found c' = 5 \<and>
              (gs = [] \<longrightarrow> c' = ?c1) \<and>
              (gs \<noteq> [] \<longrightarrow> layer c' = mp3_frame_layer (last gs) \<and> head_data c')"
  proof (rule Cons.IH [OF fgs _ d1])
    show "length gs \<le> 5" using Cons.prems(2) by simp
    show "found ?c1 = 5 - int (length gs)" using Cons.prems(4) by simp
    show "0 \<le> offset ?c1" using Cons.prems(5) by (simp add: o1)
    show "offset ?c1 \<le> found ?c1 * 10000"
      using Cons.prems(6) lenb by (simp add: o1)
    show "last_free_framelen ?c1 = - 1" using Cons.prems(7) by simp
  qed
  then obtain c' where
    c': "mp3_header_loop ?tf 0 s ?c1 = Inr c'" "found c' = 5" "gs = [] \<longrightarrow> c' = ?c1"
      "gs \<noteq> [] \<longrightarrow> layer c' = mp3_frame_layer (last gs) \<and> head_data c'"
    by blast
  have "layer c' = mp3_frame_layer (last (g # gs)) \<and> head_data c'"
    using c'(3,4) lay by (cases "gs = []") simp_all
  with c'(1,2) step show ?case by simp
qed


lemma mp3_refill_stream:
  assumes "8 \<le> length bs"
  shows "\<exists>sz. 8 \<le> sz \<and> sz \<le> int (length bs) \<and>
           mp3_refill (stream_tf bs known) 0 mp3_sync_init =
             Some \<lparr>s_buf = take (nat sz) bs, s_data = 0, s_data_end = sz, s_size = sz,
                   s_skipped = 0, s_last_free_offset = - 1, s_last_free_framelen = - 1\<rparr>"
proof -
  define sz :: int where "sz =
    (if 2048 \<le> length bs then 2048 else if 1024 \<le> length bs then 1024
     else if 512 \<le> length bs then 512 else if 256 \<le> length bs then 256
     else if 128 \<le> length bs then 128 else if 64 \<le> length bs then 64
     else if 32 \<le> length bs then 32 else if 16 \<le> length bs then 16 else 8)"
  have b: "8 \<le> sz" "sz \<le> int (length bs)"
    using assms by (auto simp: sz_def)
  have "mp3_peek_loop (stream_tf bs known) 0 4096 = (sz, Some (take (nat sz) bs))"
    using assms by (simp add: mp3_peek_loop_sizes stream_peek_in sz_def)
  then have "mp3_refill (stream_tf bs known) 0 mp3_sync_init =
             Some \<lparr>s_buf = take (nat sz) bs, s_data = 0, s_data_end = sz, s_size = sz,
                   s_skipped = 0, s_last_free_offset = - 1, s_last_free_framelen = - 1\<rparr>"
    by (simp add: mp3_refill_def mp3_sync_init_def u64_def GST_MP3_TYPEFIND_SYNC_SIZE_def)
  with b show ?thesis by blast
qed

lemma mp3_guess_frames:
  assumes "list_all mp3_frame fs" and "5 \<le> length fs"
  shows "mp3_guess (stream_tf (concat fs) known) 0 = Inr (Some (5, 0, mp3_frame_layer (fs ! 4)))"
proof -
  let ?bs = "concat fs"
  let ?tf = "stream_tf ?bs known"
  let ?gs = "take 5 fs"
  from assms(2) obtain f1 f2 fs' where fs: "fs = f1 # f2 # fs'"
    by (cases fs; cases "tl fs") auto
  with assms(1) have "mp3_frame f1" "mp3_frame f2" by simp_all
  then obtain r1 r2 x1 x2 x3 y0 y1 y2 y3 where
    f1: "f1 = 0xFF # x1 # x2 # x3 # r1" and f2: "f2 = y0 # y1 # y2 # y3 # r2"
    by (metis mp3_frameE)
  have len8: "8 \<le> length ?bs"
    by (simp add: fs f1 f2)
  from mp3_refill_stream [OF len8, of known] obtain sz where
    sz: "8 \<le> sz" "sz \<le> int (length ?bs)"
    and refill: "mp3_refill ?tf 0 mp3_sync_init =
             Some \<lparr>s_buf = take (nat sz) ?bs, s_data = 0, s_data_end = sz, s_size = sz,
                   s_skipped = 0, s_last_free_offset = - 1, s_last_free_framelen = - 1\<rparr>"
    by blast
  let ?s = "\<lparr>s_buf = take (nat sz) ?bs, s_data = 0, s_data_end = sz, s_size = sz,
                   s_skipped = 0, s_last_free_offset = - 1, s_last_free_framelen = - 1\<rparr>"
  let ?c = "\<lparr>head_data = False, layer = 0, bitrate = 0, samplerate = 0,
             channels = 0, found = 0, offset = s_skipped ?s,
             last_free_offset = s_last_free_offset ?s,
             last_free_framelen = s_last_free_framelen ?s\<rparr>"
  have first: "rd (s_buf ?s) (s_data ?s) = Inr 0xFF"
  proof -
    have "take (nat sz) ?bs ! 0 = 0xFF"
      using sz(1) by (simp add: fs f1 take_Cons')
    moreover have "0 < length (take (nat sz) ?bs)"
      using sz by simp
    ultimately show ?thesis by (simp add: rd_def)
  qed
  have l5: "length ?gs = 5" using assms(2) by simp
  then have ne: "?gs \<noteq> []" by auto
  have "last ?gs = ?gs ! (length ?gs - 1)" using ne by (rule last_conv_nth)
  also have "\<dots> = fs ! 4" by (subst l5) simp
  finally have lst: "last ?gs = fs ! 4" .
  have gs: "list_all mp3_frame ?gs" "length ?gs \<le> 5" "?gs \<noteq> []" "last ?gs = fs ! 4"
    using assms(1) l5 ne lst by (auto simp: list_all_iff dest: in_set_takeD)
  have cat: "drop (nat (offset ?c)) ?bs = concat ?gs @ concat (drop 5 fs)"
    by (simp flip: concat_append)
  have "\<exists>c'. mp3_header_loop ?tf 0 ?s ?c = Inr c' \<and> found c' = 5 \<and>
              (?gs = [] \<longrightarrow> c' = ?c) \<and>
              (?gs \<noteq> [] \<longrightarrow> layer c' = mp3_frame_layer (last ?gs) \<and> head_data c')"
  proof (rule mp3_header_loop_frames [OF _ _ _ _ _ gs(1,2) cat])
    show "s_buf ?s = take (nat sz) ?bs" "s_data ?s = 0" "s_data_end ?s = sz" "s_skipped ?s = 0"
      by simp_all
    show "sz \<le> int (length ?bs)" by (rule sz(2))
    show "found ?c = 5 - int (length ?gs)" using assms(2) by simp
    show "0 \<le> offset ?c" "offset ?c \<le> found ?c * 10000" "last_free_framelen ?c = - 1"
      by simp_all
  qed
  then obtain c' where
    c': "mp3_header_loop ?tf 0 ?s ?c = Inr c'" "found c' = 5" "layer c' = mp3_frame_layer (fs ! 4)"
    using gs(3,4) by auto
  have "mp3_sync_loop ?tf 0 mp3_sync_init = Inr (Some (?s, c'))"
    using refill first c'(1,2)
    by (subst mp3_sync_loop.simps)
      (simp add: mp3_sync_init_def GST_MP3_TYPEFIND_TRY_SYNC_def GST_TYPE_FIND_MAXIMUM_def
        GST_MP3_TYPEFIND_TRY_HEADERS_def)
  then show ?thesis
    by (simp add: mp3_guess_def c')
qed

lemma claimed_probability_full: "claimed_probability 5 0 0 = 100"
  by (simp add: claimed_probability_def GST_TYPE_FIND_MAXIMUM_def GST_MP3_TYPEFIND_TRY_SYNC_def
      GST_MP3_TYPEFIND_TRY_HEADERS_def GST_TYPE_FIND_MINIMUM_def)

text \<open>
  Claim C2. On a stream that consists of five or more well-formed frames and
  nothing else, whether its length is known or not, the scan started at
  offset 0 finds \<open>TRY_HEADERS = 5\<close> headers with no byte skipped, and the
  layer is that of the fifth frame. The probability reported is 100 when the
  3 bytes at 128 from the end can be peeked and are not \<open>TAG\<close>, 80 when they
  cannot be peeked, and 0 (with layer 0) when they are \<open>TAG\<close>.
\<close>

theorem mp3_five_frames:
  assumes "list_all mp3_frame fs" and "5 \<le> length fs"
  shows "mp3_guess (stream_tf (concat fs) known) 0 = Inr (Some (5, 0, mp3_frame_layer (fs ! 4))) \<and>
         mp3_type_find_at_offset (stream_tf (concat fs) known) 0 =
           (case gst_type_find_peek (stream_tf (concat fs) known) (- 128) 3 of
              None \<Rightarrow> Inr (mp3_frame_layer (fs ! 4), 80)
            | Some tag \<Rightarrow> if tag = bytes_of ''TAG'' then Inr (0, 0)
                          else Inr (mp3_frame_layer (fs ! 4), 100))"
proof -
  note g = mp3_guess_frames [OF assms, of known]
  from mp3_guess_probability [OF g] show ?thesis
    by (simp add: g Let_def claimed_probability_full split: option.splits)
qed

theorem mp3_five_frames_witness:
  "list_all mp3_frame (replicate 6 ([0xFF, 0xF3, 0x14, 0x00] @ replicate 20 0)) \<and>
   5 \<le> length (replicate 6 ([0xFF, 0xF3, 0x14, 0x00] @ replicate 20 0) :: guint8 list list) \<and>
   mp3_guess (stream_tf (concat (replicate 6 ([0xFF, 0xF3, 0x14, 0x00] @ replicate 20 0))) True) 0 = Inr (Some (5, 0, 3)) \<and>
   mp3_type_find_at_offset (stream_tf (concat (replicate 6 ([0xFF, 0xF3, 0x14, 0x00] @ replicate 20 0))) True) 0 = Inr (3, 100)"
proof -
  let ?fs = "replicate 6 ([0xFF, 0xF3, 0x14, 0x00] @ replicate 20 0) :: guint8 list list"
  have a: "list_all mp3_frame ?fs"
    by code_simp
  have b: "5 \<le> length ?fs"
    by simp
  have l: "mp3_frame_layer (?fs ! 4) = 3"
    by code_simp
  have t: "gst_type_find_peek (stream_tf (concat ?fs) True) (- 128) 3 = Some [0, 0, 0]"
    by code_simp
  from mp3_five_frames [OF a b, of True] a b show ?thesis
    by (simp only: l t) (simp add: bytes_of_def)
qed

text \<open>
  Five well-formed frames of 24 bytes and nothing else, length known: the
  stream is shorter than 128 bytes, and the probability reported is 80.
\<close>

theorem mp3_five_frames_counterexample:
  "list_all mp3_frame (replicate 5 ([0xFF, 0xF3, 0x14, 0x00] @ replicate 20 0)) \<and>
   length (replicate 5 ([0xFF, 0xF3, 0x14, 0x00] @ replicate 20 0) :: guint8 list list) = 5 \<and>
   mp3_guess (stream_tf (concat (replicate 5 ([0xFF, 0xF3, 0x14, 0x00] @ replicate 20 0))) True) 0 = Inr (Some (5, 0, 3)) \<and>
   mp3_type_find_at_offset (stream_tf (concat (replicate 5 ([0xFF, 0xF3, 0x14, 0x00] @ replicate 20 0))) True) 0 = Inr (3, 80)"
  by code_simp

end
